theory Spec2Isabelle
  imports
    Main
    "HOL-Library.Sublist"
    "HOL-Library.Char_ord"
    "HOL-Library.List_Lexorder"
    "HOL-Library.Finite_Map"
    "HOL-Library.While_Combinator"
begin

section \<open>The string functions of the Go library that graph.go calls\<close>

text \<open>
  A Go string is a sequence of bytes, here a \<^typ>\<open>string\<close> (a list of 8-bit characters).
  \<open>Index\<close> is \<open>strings.Index\<close>: the position of the first occurrence of \<open>sub\<close>
  in \<open>s\<close>, \<open>None\<close> where Go returns \<open>-1\<close>.
\<close>

fun Index :: "string \<Rightarrow> string \<Rightarrow> nat option" where
  "Index [] sub = (if sub = [] then Some 0 else None)"
| "Index (c # cs) sub =
     (if prefix sub (c # cs) then Some 0 else map_option Suc (Index cs sub))"

definition Contains :: "string \<Rightarrow> string \<Rightarrow> bool" where
  "Contains s sub = (Index s sub \<noteq> None)"

text \<open>
  \<open>Split\<close> is \<open>strings.Split\<close> for a non-empty separator, as the library's \<open>genSplit\<close>
  computes it: cut at the first occurrence of the separator and go on in the rest; the last
  piece is what remains. graph.go only passes the literal separators \<open>&&\<close>, \<open>!=\<close>,
  \<open>==\<close> and \<open>=\<close>; for the empty separator (where Go splits into UTF-8 sequences) the
  function is left unspecified.
\<close>

function (sequential) Split :: "string \<Rightarrow> string \<Rightarrow> string list" where
  "Split s (d # ds) =
     (case Index s (d # ds) of
        None \<Rightarrow> [s]
      | Some i \<Rightarrow> take i s # Split (drop (i + length (d # ds)) s) (d # ds))"
| "Split s [] = undefined"
  by pat_completeness auto
termination
proof (relation "measure (\<lambda>(s, sep). length s)")
  show "wf (measure (\<lambda>(s, sep). length s))" by simp
next
  fix s :: string and d ds i
  assume found: "Index s (d # ds) = Some i"
  have "Index t sub = Some j \<Longrightarrow> j + length sub \<le> length t" for t sub j
  proof (induction t arbitrary: j)
    case Nil
    then show ?case by (simp split: if_splits)
  next
    case (Cons c cs)
    show ?case
    proof (cases "prefix sub (c # cs)")
      case True
      with Cons.prems show ?thesis by (auto dest: prefix_length_le)
    next
      case False
      with Cons.prems obtain k where "Index cs sub = Some k" "j = Suc k" by auto
      with Cons.IH show ?thesis by fastforce
    qed
  qed
  from this[OF found] have "i + length (d # ds) \<le> length s" .
  then show "((drop (i + length (d # ds)) s, d # ds), (s, d # ds))
                \<in> measure (\<lambda>(s, sep). length s)"
    by simp
qed

declare Split.simps [simp del]

text \<open>
  \<open>strings.TrimSpace\<close> removes leading and trailing white space as Unicode defines it.
  \<open>spaceRunes\<close> lists the UTF-8 encodings of the code points for which \<open>unicode.IsSpace\<close>
  holds: the six ASCII ones, U+0085, U+00A0, U+1680, U+2000 to U+200A, U+2028, U+2029,
  U+202F, U+205F and U+3000. Any other byte sequence decodes to a rune that is not a space.
\<close>

definition spaceRunes :: "string list" where
  "spaceRunes =
     [[CHR 0x09], [CHR 0x0A], [CHR 0x0B], [CHR 0x0C], [CHR 0x0D], [CHR 0x20],
      [CHR 0xC2, CHR 0x85], [CHR 0xC2, CHR 0xA0],
      [CHR 0xE1, CHR 0x9A, CHR 0x80],
      [CHR 0xE2, CHR 0x80, CHR 0x80], [CHR 0xE2, CHR 0x80, CHR 0x81],
      [CHR 0xE2, CHR 0x80, CHR 0x82], [CHR 0xE2, CHR 0x80, CHR 0x83],
      [CHR 0xE2, CHR 0x80, CHR 0x84], [CHR 0xE2, CHR 0x80, CHR 0x85],
      [CHR 0xE2, CHR 0x80, CHR 0x86], [CHR 0xE2, CHR 0x80, CHR 0x87],
      [CHR 0xE2, CHR 0x80, CHR 0x88], [CHR 0xE2, CHR 0x80, CHR 0x89],
      [CHR 0xE2, CHR 0x80, CHR 0x8A],
      [CHR 0xE2, CHR 0x80, CHR 0xA8], [CHR 0xE2, CHR 0x80, CHR 0xA9],
      [CHR 0xE2, CHR 0x80, CHR 0xAF], [CHR 0xE2, CHR 0x81, CHR 0x9F],
      [CHR 0xE3, CHR 0x80, CHR 0x80]]"

text \<open>The number of bytes of the white-space rune a string starts (ends) with, 0 if none.\<close>

definition spacePrefix :: "string \<Rightarrow> nat" where
  "spacePrefix s = (case find (\<lambda>p. prefix p s) spaceRunes of None \<Rightarrow> 0 | Some p \<Rightarrow> length p)"

definition spaceSuffix :: "string \<Rightarrow> nat" where
  "spaceSuffix s = (case find (\<lambda>p. suffix p s) spaceRunes of None \<Rightarrow> 0 | Some p \<Rightarrow> length p)"

function TrimLeft :: "string \<Rightarrow> string" where
  "TrimLeft s = (if spacePrefix s = 0 then s else TrimLeft (drop (spacePrefix s) s))"
  by pat_completeness auto
termination
proof (relation "measure length")
  show "wf (measure length)" by simp
next
  fix s :: string
  assume "spacePrefix s \<noteq> 0"
  moreover have "spacePrefix s \<le> length s"
    by (auto simp: spacePrefix_def split: option.splits dest!: find_Some_iff[THEN iffD1]
        dest: prefix_length_le)
  ultimately show "(drop (spacePrefix s) s, s) \<in> measure length"
    by simp
qed

function TrimRight :: "string \<Rightarrow> string" where
  "TrimRight s =
     (if spaceSuffix s = 0 then s else TrimRight (take (length s - spaceSuffix s) s))"
  by pat_completeness auto
termination
proof (relation "measure length")
  show "wf (measure length)" by simp
next
  fix s :: string
  assume "spaceSuffix s \<noteq> 0"
  moreover have "spaceSuffix s \<le> length s"
    by (auto simp: spaceSuffix_def split: option.splits dest!: find_Some_iff[THEN iffD1]
        dest: suffix_length_le)
  ultimately show "(take (length s - spaceSuffix s) s, s) \<in> measure length"
    by simp
qed

declare TrimLeft.simps [simp del] TrimRight.simps [simp del]

definition TrimSpace :: "string \<Rightarrow> string" where
  "TrimSpace s = TrimRight (TrimLeft s)"

definition TrimPrefix :: "string \<Rightarrow> string \<Rightarrow> string" where
  "TrimPrefix s p = (if prefix p s then drop (length p) s else s)"

text \<open>\<open>strings.Join\<close>.\<close>

fun Join :: "string list \<Rightarrow> string \<Rightarrow> string" where
  "Join [] sep = []"
| "Join [x] sep = x"
| "Join (x # y # ys) sep = x @ sep @ Join (y # ys) sep"

section \<open>The script and the story graph (the structs of the package)\<close>

text \<open>
  A Go \<open>map[string]T\<close> is a finite map. A state vector is a \<open>map[string]bool\<close>; reading
  an absent key yields \<open>false\<close>, which \<open>get\<close> writes out.
\<close>

type_synonym state = "(string, bool) fmap"

definition get :: "state \<Rightarrow> string \<Rightarrow> bool" where
  "get st k = (case fmlookup st k of None \<Rightarrow> False | Some b \<Rightarrow> b)"

record TextBlock =
  Block_Condition :: string
  Block_Content :: string

record Choice =
  Choice_Text :: string
  Choice_Condition :: string
  StateChanges :: "string list"
  TargetKnot :: string
  Choice_Stitch :: string

record Knot =
  Name :: string
  Knot_Scene :: string
  Body :: "TextBlock list"
  Choices :: "Choice list"
  Knot_IsEnd :: bool

text \<open>
  In \<open>GlobalStates\<close> the value is true for a flag state and false for a plain global
  state; \<open>LocalStates\<close> holds the local states as its keys. \<open>Knots\<close> maps a name to
  a \<open>*Knot\<close>; the pointers in the map are taken to be non-nil, as the parser makes them.
\<close>

record Script =
  Script_Metadata :: "(string, string) fmap"
  GlobalStates :: "(string, bool) fmap"
  LocalStates :: "(string, bool) fmap"
  Knots :: "(string, Knot) fmap"

record StoryEdge =
  Edge_Text :: string
  TargetNodeID :: string
  Edge_Stitch :: string

record StoryNode =
  KnotName :: string
  Node_Scene :: string
  State :: state
  Node_Content :: string
  Edges :: "StoryEdge list"
  Node_IsEnd :: bool
  Node_Stitch :: string

record StoryGraph =
  Graph_Metadata :: "(string, string) fmap"
  Graph :: "(string, StoryNode) fmap"

text \<open>
  What ends a run of \<open>buildGraph\<close> without a graph: its two error returns
  (\<open>NoIndexKnot\<close>, \<open>NonExistentKnot\<close> with the name that was looked up), and the two
  run-time panics its statements can raise, a slice index out of range and the
  dereference of a nil pointer.
\<close>

datatype error =
    NoIndexKnot
  | NonExistentKnot string
  | IndexOutOfRange
  | NilDereference

text \<open>Indexing a slice: \<open>None\<close> stands for the panic "index out of range".\<close>

definition slice_at :: "'a list \<Rightarrow> nat \<Rightarrow> 'a option" where
  "slice_at xs i = (if i < length xs then Some (xs ! i) else None)"

section \<open>evaluateCondition\<close>

text \<open>
  One pass of the loop body of \<open>evaluateCondition\<close>: the value of one conjunct.
  \<open>Some False\<close> is also the result of the branch that returns false for a conjunct with
  neither operator; \<open>None\<close> is a panic of \<open>vals[0]\<close> or \<open>vals[1]\<close>.
\<close>

definition evalPart :: "string \<Rightarrow> state \<Rightarrow> bool option" where
  "evalPart part0 st =
     (let part = TrimSpace part0 in
      if Contains part ''!='' then
        (let vals = Split part ''!='' in
         case slice_at vals 0 of None \<Rightarrow> None | Some v0 \<Rightarrow>
         case slice_at vals 1 of None \<Rightarrow> None | Some v1 \<Rightarrow>
           Some (get st (TrimSpace v0) \<noteq> (TrimSpace v1 = ''true'')))
      else if Contains part ''=='' then
        (let vals = Split part ''=='' in
         case slice_at vals 0 of None \<Rightarrow> None | Some v0 \<Rightarrow>
         case slice_at vals 1 of None \<Rightarrow> None | Some v1 \<Rightarrow>
           Some (get st (TrimSpace v0) = (TrimSpace v1 = ''true'')))
      else Some False)"

fun evalParts :: "string list \<Rightarrow> state \<Rightarrow> bool option" where
  "evalParts [] st = Some True"
| "evalParts (p # ps) st =
     (case evalPart p st of
        None \<Rightarrow> None
      | Some r \<Rightarrow> if \<not> r then Some False else evalParts ps st)"

definition evaluateCondition :: "string \<Rightarrow> state \<Rightarrow> bool option" where
  "evaluateCondition condition st = evalParts (Split condition ''&&'') st"

text \<open>
  The guard both callers put in front of the evaluator (\<open>Condition == "" || evaluateCondition(...)\<close>
  in \<open>createNode\<close>, its negation in \<open>buildGraph\<close>): an empty condition is accepted without
  calling \<open>evaluateCondition\<close>.
\<close>

definition conditionHolds :: "string \<Rightarrow> state \<Rightarrow> bool option" where
  "conditionHolds condition st =
     (if condition = [] then Some True else evaluateCondition condition st)"

section \<open>applyStateChanges\<close>

text \<open>
  The loop over \<open>choice.StateChanges\<close>, on the copy \<open>nextState\<close>. \<open>parts[0]\<close> and
  \<open>parts[1]\<close> are slice accesses; \<open>None\<close> is their panic.
\<close>

fun applyChanges :: "state \<Rightarrow> string list \<Rightarrow> Script \<Rightarrow> state option" where
  "applyChanges nextState [] ast = Some nextState"
| "applyChanges nextState (change # changes) ast =
     (let parts = Split change ''='' in
      case slice_at parts 0 of None \<Rightarrow> None | Some p0 \<Rightarrow>
      case slice_at parts 1 of None \<Rightarrow> None | Some p1 \<Rightarrow>
        (let stateName = TrimSpace p0; newValue = (TrimSpace p1 = ''true'') in
         if fmlookup (GlobalStates ast) stateName = Some True \<and> \<not> newValue
         then applyChanges nextState changes ast
         else applyChanges (fmupd stateName newValue nextState) changes ast))"

definition applyStateChanges :: "state \<Rightarrow> Choice \<Rightarrow> Script \<Rightarrow> state option" where
  "applyStateChanges currentState choice ast =
     applyChanges currentState (StateChanges choice) ast"

section \<open>generateNodeID\<close>

text \<open>
  The keys are collected and sorted with \<open>sort.Strings\<close> (bytewise lexicographic order,
  the order of \<^typ>\<open>string\<close> here); \<open>%t\<close> prints a boolean as \<open>true\<close> or \<open>false\<close>.
\<close>

definition fmtBool :: "bool \<Rightarrow> string" where
  "fmtBool b = (if b then ''true'' else ''false'')"

definition stateParts :: "string list \<Rightarrow> state \<Rightarrow> string list" where
  "stateParts keys st = map (\<lambda>k. k @ ''='' @ fmtBool (get st k)) keys"

definition generateNodeID :: "string \<Rightarrow> state \<Rightarrow> string" where
  "generateNodeID knotName st =
     knotName @ ''|'' @ Join (stateParts (sorted_list_of_fset (fmdom st)) st) '',''"

section \<open>createNode\<close>

text \<open>
  The loop over \<open>knot.Body\<close>: the content of the first block that is accepted; the zero
  value \<open>""\<close> when there is none.
\<close>

fun selectContent :: "TextBlock list \<Rightarrow> state \<Rightarrow> string option" where
  "selectContent [] st = Some []"
| "selectContent (block # blocks) st =
     (case conditionHolds (Block_Condition block) st of
        None \<Rightarrow> None
      | Some ok \<Rightarrow> if ok then Some (Block_Content block) else selectContent blocks st)"

definition createNode :: "string \<Rightarrow> Knot \<Rightarrow> state \<Rightarrow> error + StoryNode" where
  "createNode knotName knot st =
     (case selectContent (Body knot) st of
        None \<Rightarrow> Inl IndexOutOfRange
      | Some content \<Rightarrow>
          Inr \<lparr>KnotName = knotName, Node_Scene = Knot_Scene knot, State = st,
               Node_Content = content, Edges = [], Node_IsEnd = Knot_IsEnd knot,
               Node_Stitch = []\<rparr>)"

section \<open>buildGraph\<close>

text \<open>The initial state: every key of \<open>GlobalStates\<close> and of \<open>LocalStates\<close> set to false.\<close>

definition initialState :: "Script \<Rightarrow> state" where
  "initialState ast =
     fmmap (\<lambda>_. False) (GlobalStates ast) ++\<^sub>f fmmap (\<lambda>_. False) (LocalStates ast)"

text \<open>The scene purge: every key of \<open>LocalStates\<close> set to false in \<open>nextState\<close>.\<close>

definition purgeLocals :: "Script \<Rightarrow> state \<Rightarrow> state" where
  "purgeLocals ast nextState = nextState ++\<^sub>f fmmap (\<lambda>_. False) (LocalStates ast)"

text \<open>
  The name of the knot a choice leads to (lines 53 to 69 of graph.go): the stitch without
  its leading dot when the choice has a stitch, the target knot otherwise; when that is
  empty, the current knot if the choice changes state, and \<open>None\<close> (the loop's
  \<open>continue\<close>) if it does not.
\<close>

definition resolveTarget :: "Choice \<Rightarrow> string \<Rightarrow> string option" where
  "resolveTarget choice currentName =
     (let targetKnotName =
            (if Choice_Stitch choice \<noteq> [] then TrimPrefix (Choice_Stitch choice) ''.''
             else TargetKnot choice)
      in if targetKnotName = []
         then (if StateChanges choice \<noteq> [] then Some currentName else None)
         else Some targetKnotName)"

text \<open>
  The first half of the body of the loop over the choices (lines 47 to 80), for the node
  \<open>(knotName, st)\<close> of knot \<open>currentKnot\<close>: the knot name, the knot and the state of the
  node the choice leads to; \<open>Inr None\<close> where the loop continues with the next choice;
  \<open>Inl\<close> where \<open>buildGraph\<close> returns an error or panics.
\<close>

definition followChoice ::
  "Script \<Rightarrow> string \<Rightarrow> state \<Rightarrow> Knot \<Rightarrow> Choice \<Rightarrow> error + (string \<times> Knot \<times> state) option" where
  "followChoice ast knotName st currentKnot choice =
     (case conditionHolds (Choice_Condition choice) st of
        None \<Rightarrow> Inl IndexOutOfRange
      | Some ok \<Rightarrow>
          if \<not> ok then Inr None
          else
            (case applyStateChanges st choice ast of
               None \<Rightarrow> Inl IndexOutOfRange
             | Some nextState \<Rightarrow>
                 (case resolveTarget choice knotName of
                    None \<Rightarrow> Inr None
                  | Some targetKnotName \<Rightarrow>
                      (case fmlookup (Knots ast) targetKnotName of
                         None \<Rightarrow> Inl (NonExistentKnot targetKnotName)
                       | Some targetKnot \<Rightarrow>
                           Inr (Some (targetKnotName, targetKnot,
                                  if Knot_Scene currentKnot \<noteq> Knot_Scene targetKnot
                                  then purgeLocals ast nextState else nextState))))))"

text \<open>
  The nodes are heap objects that the graph and the queue both point to, and the loop
  appends edges to the node it took from the queue. A node is entered in the graph, under
  its identity, at the moment it is put in the queue, so the model keeps the nodes in the
  graph alone and lets the queue hold their identities: reading \<open>currentNode\<close> is a
  lookup in the graph (it cannot miss; a miss is \<open>NilDereference\<close>), and appending an edge
  updates the graph's entry. \<open>visited[id]\<close> reads false for an absent key.
\<close>

type_synonym work = "(string, StoryNode) fmap \<times> string list \<times> (string, bool) fmap"

text \<open>The second half of the loop body (lines 82 to 95), after \<open>followChoice\<close>.\<close>

definition processChoice :: "Script \<Rightarrow> string \<Rightarrow> Knot \<Rightarrow> work \<Rightarrow> Choice \<Rightarrow> error + work" where
  "processChoice ast cid currentKnot w choice =
     (case w of (graph, queue, visited) \<Rightarrow>
      case fmlookup graph cid of
        None \<Rightarrow> Inl NilDereference
      | Some currentNode \<Rightarrow>
          (case followChoice ast (KnotName currentNode) (State currentNode) currentKnot choice of
             Inl e \<Rightarrow> Inl e
           | Inr None \<Rightarrow> Inr (graph, queue, visited)
           | Inr (Some (targetKnotName, targetKnot, nextState)) \<Rightarrow>
               (case createNode targetKnotName targetKnot nextState of
                  Inl e \<Rightarrow> Inl e
                | Inr nextNode \<Rightarrow>
                    (let nextNodeID = generateNodeID (KnotName nextNode) (State nextNode);
                         edge = \<lparr>Edge_Text = Choice_Text choice, TargetNodeID = nextNodeID,
                                 Edge_Stitch = Choice_Stitch choice\<rparr>;
                         graph1 = fmupd cid
                                    (currentNode\<lparr>Edges := Edges currentNode @ [edge]\<rparr>) graph
                     in if \<not> get visited nextNodeID
                        then Inr (fmupd nextNodeID nextNode graph1, queue @ [nextNodeID],
                                  fmupd nextNodeID True visited)
                        else Inr (graph1, queue, visited)))))"

fun processChoices :: "Script \<Rightarrow> string \<Rightarrow> Knot \<Rightarrow> work \<Rightarrow> Choice list \<Rightarrow> error + work" where
  "processChoices ast cid currentKnot w [] = Inr w"
| "processChoices ast cid currentKnot w (choice # choices) =
     (case processChoice ast cid currentKnot w choice of
        Inl e \<Rightarrow> Inl e
      | Inr w' \<Rightarrow> processChoices ast cid currentKnot w' choices)"

text \<open>One pass of the loop over the queue (lines 41 to 96).\<close>

definition processNode :: "Script \<Rightarrow> work \<Rightarrow> error + work" where
  "processNode ast w =
     (case w of (graph, queue, visited) \<Rightarrow>
      case queue of
        [] \<Rightarrow> Inr w
      | cid # rest \<Rightarrow>
          (case fmlookup graph cid of
             None \<Rightarrow> Inl NilDereference
           | Some currentNode \<Rightarrow>
               (case fmlookup (Knots ast) (KnotName currentNode) of
                  None \<Rightarrow> Inl NilDereference
                | Some currentKnot \<Rightarrow>
                    processChoices ast cid currentKnot (graph, rest, visited)
                      (Choices currentKnot))))"

definition queueNonEmpty :: "error + work \<Rightarrow> bool" where
  "queueNonEmpty x = (case x of Inl e \<Rightarrow> False | Inr (graph, queue, visited) \<Rightarrow> queue \<noteq> [])"

definition loopBody :: "Script \<Rightarrow> error + work \<Rightarrow> error + work" where
  "loopBody ast x = (case x of Inl e \<Rightarrow> Inl e | Inr w \<Rightarrow> processNode ast w)"

text \<open>
  \<open>buildGraph\<close>. The result is \<open>None\<close> when the loop over the queue never ends,
  \<open>Some (Inl e)\<close> when the function returns an error or panics, \<open>Some (Inr g)\<close> when it
  returns the graph \<open>g\<close>. (\<open>buildGraph\<close> leaves the graph's \<open>Metadata\<close> nil.)
\<close>

definition buildGraph :: "Script \<Rightarrow> (error + StoryGraph) option" where
  "buildGraph ast =
     (case fmlookup (Knots ast) ''index'' of
        None \<Rightarrow> Some (Inl NoIndexKnot)
      | Some indexKnot \<Rightarrow>
          (case createNode ''index'' indexKnot (initialState ast) of
             Inl e \<Rightarrow> Some (Inl e)
           | Inr rootNode \<Rightarrow>
               (let nodeID = generateNodeID (KnotName rootNode) (State rootNode)
                in map_option
                     (map_sum id (\<lambda>(graph, queue, visited).
                        \<lparr>Graph_Metadata = fmempty, Graph = graph\<rparr>))
                     (while_option queueNonEmpty (loopBody ast)
                        (Inr (fmupd nodeID rootNode fmempty, [nodeID],
                              fmupd nodeID True fmempty))))))"

section \<open>Reachable nodes\<close>

text \<open>
  The pairs of a knot name and a state that some finite sequence of choices produces from
  the knot \<open>index\<close> with the initial state, each choice followed as \<open>followChoice\<close>
  follows it.
\<close>

inductive reachable :: "Script \<Rightarrow> string \<Rightarrow> state \<Rightarrow> bool" for ast :: Script where
  start: "reachable ast ''index'' (initialState ast)"
| step: "reachable ast u st \<Longrightarrow> fmlookup (Knots ast) u = Some knot \<Longrightarrow>
         choice \<in> set (Choices knot) \<Longrightarrow>
         followChoice ast u st knot choice = Inr (Some (t, targetKnot, st')) \<Longrightarrow>
         reachable ast t st'"

text \<open>No two reachable nodes share their identity.\<close>

definition uniqueIDs :: "Script \<Rightarrow> bool" where
  "uniqueIDs ast \<longleftrightarrow>
     (\<forall>u1 s1 u2 s2. reachable ast u1 s1 \<longrightarrow> reachable ast u2 s2 \<longrightarrow>
        generateNodeID u1 s1 = generateNodeID u2 s2 \<longrightarrow> u1 = u2 \<and> s1 = s2)"

text \<open>The name a state change assigns to: \<open>TrimSpace(parts[0])\<close>.\<close>

definition changeName :: "string \<Rightarrow> string" where
  "changeName change = TrimSpace (hd (Split change ''=''))"

text \<open>Every state change of the script assigns to a declared state.\<close>

definition declaredOnly :: "Script \<Rightarrow> bool" where
  "declaredOnly ast \<longleftrightarrow>
     (\<forall>knot \<in> fmran' (Knots ast). \<forall>choice \<in> set (Choices knot).
        \<forall>change \<in> set (StateChanges choice).
          changeName change |\<in>| fmdom (GlobalStates ast) |\<union>| fmdom (LocalStates ast))"

text \<open>Every state change of the script contains the character \<open>=\<close>.\<close>

definition changesWellFormed :: "Script \<Rightarrow> bool" where
  "changesWellFormed ast \<longleftrightarrow>
     (\<forall>knot \<in> fmran' (Knots ast). \<forall>choice \<in> set (Choices knot).
        \<forall>change \<in> set (StateChanges choice). CHR ''='' \<in> set change)"

section \<open>What the claims speak of\<close>


text \<open>No edge of a graph leads to an identity that is not a key of the graph.\<close>

definition noDangling :: "(string, StoryNode) fmap \<Rightarrow> bool" where
  "noDangling graph \<longleftrightarrow>
     (\<forall>k n. fmlookup graph k = Some n \<longrightarrow>
        (\<forall>e \<in> set (Edges n). TargetNodeID e |\<in>| fmdom graph))"

text \<open>
  Some reachable node has a choice whose condition holds and whose target knot, as
  \<open>resolveTarget\<close> names it, is not a knot of the script.
\<close>

definition deadEnd :: "Script \<Rightarrow> bool" where
  "deadEnd ast \<longleftrightarrow>
     (\<exists>u st knot choice t. reachable ast u st \<and> fmlookup (Knots ast) u = Some knot \<and>
        choice \<in> set (Choices knot) \<and>
        conditionHolds (Choice_Condition choice) st = Some True \<and>
        resolveTarget choice u = Some t \<and> fmlookup (Knots ast) t = None)"

text \<open>
  Reading the graph that \<open>buildGraph\<close> returns for a script: the node under an
  identity, the set of identities, and of the node under an identity the knot name, the
  scene, the value of a state, and the targets and the stitches of its edges.
\<close>

definition nodeAt :: "Script \<Rightarrow> string \<Rightarrow> StoryNode option" where
  "nodeAt ast k = (case buildGraph ast of Some (Inr g) \<Rightarrow> fmlookup (Graph g) k | _ \<Rightarrow> None)"

definition nodeIDs :: "Script \<Rightarrow> string fset" where
  "nodeIDs ast = (case buildGraph ast of Some (Inr g) \<Rightarrow> fmdom (Graph g) | _ \<Rightarrow> {||})"

definition unitOf :: "Script \<Rightarrow> string \<Rightarrow> string option" where
  "unitOf ast k = map_option KnotName (nodeAt ast k)"

definition sceneOf :: "Script \<Rightarrow> string \<Rightarrow> string option" where
  "sceneOf ast k = map_option Node_Scene (nodeAt ast k)"

definition valueOf :: "Script \<Rightarrow> string \<Rightarrow> string \<Rightarrow> bool option" where
  "valueOf ast k x = (case nodeAt ast k of None \<Rightarrow> None | Some n \<Rightarrow> fmlookup (State n) x)"

definition targetsOf :: "Script \<Rightarrow> string \<Rightarrow> string list" where
  "targetsOf ast k = (case nodeAt ast k of None \<Rightarrow> [] | Some n \<Rightarrow> map TargetNodeID (Edges n))"

definition stitchesOf :: "Script \<Rightarrow> string \<Rightarrow> string list" where
  "stitchesOf ast k = (case nodeAt ast k of None \<Rightarrow> [] | Some n \<Rightarrow> map Edge_Stitch (Edges n))"

section \<open>The invariant of the traversal\<close>

text \<open>
  What the proofs say about the loop over the queue. The edges a node gets from a list of
  its knot's choices, in order, are \<open>expectedEdges\<close>; a choice is done when
  \<open>followChoice\<close> raised no error for it and the node it leads to is in the graph. A
  node of the graph is stored under its identity, is reachable, and is what \<open>createNode\<close>
  made, but for its edges (\<open>nodeOK\<close>).
\<close>

definition expectedEdge :: "Script \<Rightarrow> string \<Rightarrow> state \<Rightarrow> Knot \<Rightarrow> Choice \<Rightarrow> StoryEdge list" where
  "expectedEdge ast u st knot choice =
     (case followChoice ast u st knot choice of
        Inr (Some (t, targetKnot, st')) \<Rightarrow>
          [\<lparr>Edge_Text = Choice_Text choice, TargetNodeID = generateNodeID t st',
            Edge_Stitch = Choice_Stitch choice\<rparr>]
      | _ \<Rightarrow> [])"

definition expectedEdges :: "Script \<Rightarrow> string \<Rightarrow> state \<Rightarrow> Knot \<Rightarrow> Choice list \<Rightarrow> StoryEdge list" where
  "expectedEdges ast u st knot choices = concat (map (expectedEdge ast u st knot) choices)"

definition choiceDone :: "Script \<Rightarrow> (string, StoryNode) fmap \<Rightarrow> string \<Rightarrow> state \<Rightarrow> Knot \<Rightarrow> Choice \<Rightarrow> bool" where
  "choiceDone ast graph u st knot choice =
     (case followChoice ast u st knot choice of
        Inl e \<Rightarrow> False
      | Inr None \<Rightarrow> True
      | Inr (Some (t, targetKnot, st')) \<Rightarrow> generateNodeID t st' |\<in>| fmdom graph)"

definition nodeDone :: "Script \<Rightarrow> (string, StoryNode) fmap \<Rightarrow> StoryNode \<Rightarrow> Choice list \<Rightarrow> bool" where
  "nodeDone ast graph n choices \<longleftrightarrow>
     (\<exists>knot. fmlookup (Knots ast) (KnotName n) = Some knot \<and>
        Edges n = expectedEdges ast (KnotName n) (State n) knot choices \<and>
        (\<forall>choice \<in> set choices. choiceDone ast graph (KnotName n) (State n) knot choice))"

definition nodeOK :: "Script \<Rightarrow> string \<Rightarrow> StoryNode \<Rightarrow> bool" where
  "nodeOK ast k n \<longleftrightarrow>
     k = generateNodeID (KnotName n) (State n) \<and> reachable ast (KnotName n) (State n) \<and>
     (\<exists>knot. fmlookup (Knots ast) (KnotName n) = Some knot \<and>
        createNode (KnotName n) knot (State n) = Inr (n\<lparr>Edges := []\<rparr>))"

definition allChoices :: "Script \<Rightarrow> StoryNode \<Rightarrow> Choice list" where
  "allChoices ast n =
     (case fmlookup (Knots ast) (KnotName n) of None \<Rightarrow> [] | Some knot \<Rightarrow> Choices knot)"

text \<open>
  \<open>Inv\<close> holds between two choices: \<open>cur\<close> names the node taken from the queue and
  the choices already processed for it (\<open>None\<close> between two nodes). A node still in the
  queue has no edges, the current node has the edges of the choices processed so far,
  every other node has the edges of all the choices of its knot; the visited identities
  are the keys of the graph.
\<close>

definition progress ::
  "Script \<Rightarrow> string list \<Rightarrow> (string \<times> Choice list) option \<Rightarrow> string \<Rightarrow> StoryNode \<Rightarrow> Choice list" where
  "progress ast queue cur k n =
     (if k \<in> set queue then []
      else case cur of
             None \<Rightarrow> allChoices ast n
           | Some (cid, choices) \<Rightarrow> if k = cid then choices else allChoices ast n)"

definition Inv :: "Script \<Rightarrow> (string \<times> Choice list) option \<Rightarrow> work \<Rightarrow> bool" where
  "Inv ast cur w \<longleftrightarrow>
     (case w of (graph, queue, visited) \<Rightarrow>
        (\<forall>k. get visited k \<longleftrightarrow> k |\<in>| fmdom graph) \<and>
        generateNodeID ''index'' (initialState ast) |\<in>| fmdom graph \<and>
        distinct queue \<and> (\<forall>k \<in> set queue. k |\<in>| fmdom graph) \<and>
        (\<forall>cid choices. cur = Some (cid, choices) \<longrightarrow>
            cid \<notin> set queue \<and> cid |\<in>| fmdom graph) \<and>
        (\<forall>k n. fmlookup graph k = Some n \<longrightarrow>
            nodeOK ast k n \<and> nodeDone ast graph n (progress ast queue cur k n)))"

text \<open>
  An error that ends the loop is the error \<open>followChoice\<close> raised for a choice of a
  reachable node.
\<close>

definition errJustified :: "Script \<Rightarrow> error \<Rightarrow> bool" where
  "errJustified ast e \<longleftrightarrow>
     (\<exists>u st knot choice. reachable ast u st \<and> fmlookup (Knots ast) u = Some knot \<and>
        choice \<in> set (Choices knot) \<and> followChoice ast u st knot choice = Inl e)"

definition loopInv :: "Script \<Rightarrow> error + work \<Rightarrow> bool" where
  "loopInv ast x = (case x of Inl e \<Rightarrow> errJustified ast e | Inr w \<Rightarrow> Inv ast None w)"

text \<open>
  The loop ends: the identities of the reachable nodes are finitely many (\<open>idUniverse\<close>;
  the states of the reachable nodes assign to the declared names and to the names the
  state changes of the script assign to), a choice adds at most one of them to the graph
  and to the queue (\<open>grows\<close>), and each pass takes one identity from the queue.
\<close>

definition idUniverse :: "Script \<Rightarrow> string set" where
  "idUniverse ast = {generateNodeID u st | u st. reachable ast u st}"

definition assignedNames :: "Script \<Rightarrow> string set" where
  "assignedNames ast =
     (\<Union>knot \<in> fmran' (Knots ast). \<Union>choice \<in> set (Choices knot).
        changeName ` set (StateChanges choice))"

definition grows :: "work \<Rightarrow> work \<Rightarrow> bool" where
  "grows w w' \<longleftrightarrow>
     (case (w, w') of ((G, q, v), (G', q', v')) \<Rightarrow>
        (fmdom G' = fmdom G \<and> q' = q) \<or>
        (\<exists>ID. ID |\<notin>| fmdom G \<and> fmdom G' = finsert ID (fmdom G) \<and> q' = q @ [ID]))"

definition mu :: "string set \<Rightarrow> work \<Rightarrow> nat" where
  "mu U w = (case w of (G, q, v) \<Rightarrow> 2 * card (U - fmdom' G) + length q)"

definition loopMeasure :: "string set \<Rightarrow> error + work \<Rightarrow> nat" where
  "loopMeasure U x = (case x of Inl e \<Rightarrow> 0 | Inr w \<Rightarrow> mu U w)"

text \<open>The state of the loop when it starts, and the result made of its final state.\<close>

definition rootNode :: "Script \<Rightarrow> Knot \<Rightarrow> StoryNode" where
  "rootNode ast indexKnot =
     \<lparr>KnotName = ''index'', Node_Scene = Knot_Scene indexKnot, State = initialState ast,
      Node_Content = the (selectContent (Body indexKnot) (initialState ast)), Edges = [],
      Node_IsEnd = Knot_IsEnd indexKnot, Node_Stitch = []\<rparr>"

definition startWork :: "Script \<Rightarrow> Knot \<Rightarrow> error + work" where
  "startWork ast indexKnot =
     Inr (fmupd (generateNodeID ''index'' (initialState ast)) (rootNode ast indexKnot) fmempty,
          [generateNodeID ''index'' (initialState ast)],
          fmupd (generateNodeID ''index'' (initialState ast)) True fmempty)"

definition finish :: "error + work \<Rightarrow> error + StoryGraph" where
  "finish = map_sum id (\<lambda>(graph, queue, visited). \<lparr>Graph_Metadata = fmempty, Graph = graph\<rparr>)"

section \<open>Example scripts\<close>

text \<open>The script of the test \<open>TestSimpleCompilation\<close>, as the parser hands it over.\<close>

definition doorScript :: Script where
  "doorScript =
     \<lparr>Script_Metadata = fmupd ''title'' ''My Story'' fmempty,
      GlobalStates = fmupd ''has_key'' False fmempty,
      LocalStates = fmempty,
      Knots =
        fmupd ''index''
          \<lparr>Name = ''index'', Knot_Scene = [],
           Body = [\<lparr>Block_Condition = [], Block_Content = ''The door is locked.''\<rparr>],
           Choices =
             [\<lparr>Choice_Text = ''Look for a key.'', Choice_Condition = ''has_key == false'',
               StateChanges = [''has_key = true''], TargetKnot = [], Choice_Stitch = []\<rparr>,
              \<lparr>Choice_Text = ''Open the door.'', Choice_Condition = ''has_key == true'',
               StateChanges = [], TargetKnot = ''victory'', Choice_Stitch = []\<rparr>],
           Knot_IsEnd = False\<rparr>
        (fmupd ''victory''
          \<lparr>Name = ''victory'', Knot_Scene = [],
           Body = [\<lparr>Block_Condition = [], Block_Content = ''You opened the door!''\<rparr>],
           Choices = [], Knot_IsEnd = True\<rparr>
         fmempty)\<rparr>"

text \<open>
  A flag state and a local state, and two knots of different scenes (after the tests
  \<open>TestFlagState\<close> and \<open>TestLocalState\<close>).
\<close>

definition hallScript :: Script where
  "hallScript =
     \<lparr>Script_Metadata = fmempty,
      GlobalStates = fmupd ''done'' True fmempty,
      LocalStates = fmupd ''key'' True fmempty,
      Knots =
        fmupd ''index''
          \<lparr>Name = ''index'', Knot_Scene = ''bedroom'', Body = [],
           Choices =
             [\<lparr>Choice_Text = ''Take the key and leave.'', Choice_Condition = [],
               StateChanges = [''key = true'', ''done = true''], TargetKnot = ''hall'',
               Choice_Stitch = []\<rparr>],
           Knot_IsEnd = False\<rparr>
        (fmupd ''hall''
          \<lparr>Name = ''hall'', Knot_Scene = ''corridor'', Body = [],
           Choices =
             [\<lparr>Choice_Text = ''Try to undo it.'', Choice_Condition = [],
               StateChanges = [''done = false''], TargetKnot = ''index'', Choice_Stitch = []\<rparr>],
           Knot_IsEnd = False\<rparr>
         fmempty)\<rparr>"

text \<open>A choice with a stitch, as the choice \<open>-> .gnome_intro\<close> of story.biff.\<close>

definition stitchScript :: Script where
  "stitchScript =
     \<lparr>Script_Metadata = fmempty, GlobalStates = fmempty,
      LocalStates = fmupd ''l'' True fmempty,
      Knots =
        fmupd ''index''
          \<lparr>Name = ''index'', Knot_Scene = ''garden'', Body = [],
           Choices =
             [\<lparr>Choice_Text = ''Wait.'', Choice_Condition = [],
               StateChanges = [''l = true''], TargetKnot = [], Choice_Stitch = []\<rparr>,
              \<lparr>Choice_Text = ''Inspect the fountain.'', Choice_Condition = [],
               StateChanges = [], TargetKnot = [], Choice_Stitch = ''.intro''\<rparr>],
           Knot_IsEnd = False\<rparr>
        (fmupd ''intro''
          \<lparr>Name = ''intro'', Knot_Scene = ''fountain'', Body = [], Choices = [],
           Knot_IsEnd = False\<rparr>
         fmempty)\<rparr>"

text \<open>A script whose one choice leads to a knot that does not exist.\<close>

definition lostScript :: Script where
  "lostScript =
     \<lparr>Script_Metadata = fmempty, GlobalStates = fmempty, LocalStates = fmempty,
      Knots =
        fmupd ''index''
          \<lparr>Name = ''index'', Knot_Scene = [], Body = [],
           Choices =
             [\<lparr>Choice_Text = ''Go down.'', Choice_Condition = [],
               StateChanges = [], TargetKnot = ''cellar'', Choice_Stitch = []\<rparr>],
           Knot_IsEnd = False\<rparr>
         fmempty\<rparr>"

text \<open>A script with a state change that has no \<open>=\<close>.\<close>

definition panicScript :: Script where
  "panicScript =
     \<lparr>Script_Metadata = fmempty, GlobalStates = fmupd ''has_key'' False fmempty,
      LocalStates = fmempty,
      Knots =
        fmupd ''index''
          \<lparr>Name = ''index'', Knot_Scene = [], Body = [],
           Choices =
             [\<lparr>Choice_Text = ''Look for a key.'', Choice_Condition = [],
               StateChanges = [''has_key''], TargetKnot = [], Choice_Stitch = []\<rparr>],
           Knot_IsEnd = False\<rparr>
         fmempty\<rparr>"

text \<open>
  Scripts that assign to states they do not declare, with names and knot names that
  contain the characters \<open>|\<close>, \<open>=\<close> and \<open>,\<close> of the identities: in each, two
  reachable nodes have the same identity.
\<close>

definition collisionScript :: Script where
  "collisionScript =
     \<lparr>Script_Metadata = fmempty, GlobalStates = fmempty, LocalStates = fmempty,
      Knots =
        fmupd ''index''
          \<lparr>Name = ''index'', Knot_Scene = [], Body = [],
           Choices =
             [\<lparr>Choice_Text = ''Left'', Choice_Condition = [],
               StateChanges = [''|y = false''], TargetKnot = ''x'', Choice_Stitch = []\<rparr>,
              \<lparr>Choice_Text = ''Right'', Choice_Condition = [],
               StateChanges = [''y = false''], TargetKnot = ''x|'', Choice_Stitch = []\<rparr>],
           Knot_IsEnd = False\<rparr>
        (fmupd ''x''
          \<lparr>Name = ''x'', Knot_Scene = [], Body = [], Choices = [], Knot_IsEnd = True\<rparr>
        (fmupd ''x|''
          \<lparr>Name = ''x|'', Knot_Scene = [], Body = [], Choices = [], Knot_IsEnd = True\<rparr>
         fmempty))\<rparr>"

definition flagCollisionScript :: Script where
  "flagCollisionScript =
     \<lparr>Script_Metadata = fmempty, GlobalStates = fmupd ''v'' True fmempty,
      LocalStates = fmempty,
      Knots =
        fmupd ''index''
          \<lparr>Name = ''index'', Knot_Scene = [], Body = [],
           Choices =
             [\<lparr>Choice_Text = ''One'', Choice_Condition = [],
               StateChanges = [''x|v = true''], TargetKnot = ''a'', Choice_Stitch = []\<rparr>,
              \<lparr>Choice_Text = ''Two'', Choice_Condition = [],
               StateChanges = [''v = true''], TargetKnot = [], Choice_Stitch = []\<rparr>,
              \<lparr>Choice_Text = ''Three'', Choice_Condition = ''v == true'',
               StateChanges = [], TargetKnot = ''a|v=false,x'', Choice_Stitch = []\<rparr>],
           Knot_IsEnd = False\<rparr>
        (fmupd ''a''
          \<lparr>Name = ''a'', Knot_Scene = [], Body = [], Choices = [], Knot_IsEnd = True\<rparr>
        (fmupd ''a|v=false,x''
          \<lparr>Name = ''a|v=false,x'', Knot_Scene = [], Body = [], Choices = [],
           Knot_IsEnd = True\<rparr>
         fmempty))\<rparr>"

definition sceneCollisionScript :: Script where
  "sceneCollisionScript =
     \<lparr>Script_Metadata = fmempty, GlobalStates = fmempty,
      LocalStates = fmupd ''l'' True fmempty,
      Knots =
        fmupd ''index''
          \<lparr>Name = ''index'', Knot_Scene = ''A'', Body = [],
           Choices =
             [\<lparr>Choice_Text = ''One'', Choice_Condition = [],
               StateChanges = [], TargetKnot = ''y'', Choice_Stitch = []\<rparr>,
              \<lparr>Choice_Text = ''Two'', Choice_Condition = [],
               StateChanges = [''l = true''], TargetKnot = [], Choice_Stitch = []\<rparr>,
              \<lparr>Choice_Text = ''Three'', Choice_Condition = ''l == true'',
               StateChanges = [''b|a = false''], TargetKnot = ''x'', Choice_Stitch = []\<rparr>],
           Knot_IsEnd = False\<rparr>
        (fmupd ''y''
          \<lparr>Name = ''y'', Knot_Scene = ''B'', Body = [],
           Choices =
             [\<lparr>Choice_Text = ''Four'', Choice_Condition = [],
               StateChanges = [''l = true'', ''a = false''], TargetKnot = ''x|b'',
               Choice_Stitch = []\<rparr>],
           Knot_IsEnd = False\<rparr>
        (fmupd ''x''
          \<lparr>Name = ''x'', Knot_Scene = ''A'', Body = [], Choices = [], Knot_IsEnd = True\<rparr>
        (fmupd ''x|b''
          \<lparr>Name = ''x|b'', Knot_Scene = ''B'', Body = [], Choices = [], Knot_IsEnd = True\<rparr>
         fmempty)))\<rparr>"

section \<open>Facts about the string functions\<close>

lemma Index_absent: "d \<notin> set s \<Longrightarrow> Index s (d # ds) = None"
  by (induction s) auto

lemma Index_single_None_iff: "Index s [d] = None \<longleftrightarrow> d \<notin> set s"
  by (induction s) auto


lemma Split_None: "Index s (d # ds) = None \<Longrightarrow> Split s (d # ds) = [s]"
  by (simp add: Split.simps)

lemma Split_Some:
  "Index s (d # ds) = Some i \<Longrightarrow>
     Split s (d # ds) = take i s # Split (drop (i + length (d # ds)) s) (d # ds)"
  by (simp add: Split.simps)

lemma Split_not_Nil: "Split s (d # ds) \<noteq> []"
  by (cases "Index s (d # ds)") (simp_all add: Split.simps)

lemma Split_length2_iff: "2 \<le> length (Split s (d # ds)) \<longleftrightarrow> Index s (d # ds) \<noteq> None"
proof (cases "Index s (d # ds)")
  case None
  then show ?thesis by (simp add: Split_None)
next
  case (Some i)
  have "Split (drop (i + length (d # ds)) s) (d # ds) \<noteq> []" by (rule Split_not_Nil)
  then have "1 \<le> length (Split (drop (i + length (d # ds)) s) (d # ds))"
    by (cases "Split (drop (i + length (d # ds)) s) (d # ds)") simp_all
  with Some show ?thesis by (simp add: Split_Some)
qed

lemma slice_at_0_Split: "slice_at (Split s (d # ds)) 0 \<noteq> None"
  using Split_not_Nil[of s d ds] by (simp add: slice_at_def)

lemma slice_at_1_Split:
  "slice_at (Split s (d # ds)) (Suc 0) = None \<longleftrightarrow> Index s (d # ds) = None"
  using Split_length2_iff[of s d ds] by (auto simp: slice_at_def)

lemma spaceSuffix_rev:
  "spaceSuffix s =
     (case find (\<lambda>p. prefix (rev p) (rev s)) spaceRunes of None \<Rightarrow> 0 | Some p \<Rightarrow> length p)"
  by (simp add: spaceSuffix_def suffix_to_prefix)

lemmas trim_eval =
  TrimSpace_def TrimLeft.simps TrimRight.simps spacePrefix_def spaceSuffix_rev spaceRunes_def















text \<open>
  How the examples are evaluated: the definitions, unfolded by the simplifier.
\<close>

lemma sorted_list_of_fset_finsert:
  "x |\<notin>| A \<Longrightarrow> sorted_list_of_fset (finsert x A) = insort x (sorted_list_of_fset A)"
  by (simp add: sorted_list_of_fset.rep_eq)

lemma sorted_list_of_fset_empty: "sorted_list_of_fset {||} = []"
  by (simp add: sorted_list_of_fset.rep_eq)

lemmas eval_simps =
  trim_eval Split.simps Contains_def slice_at_def get_def evaluateCondition_def evalPart_def
  conditionHolds_def applyStateChanges_def generateNodeID_def stateParts_def fmtBool_def
  sorted_list_of_fset_finsert sorted_list_of_fset_empty finsert_absorb createNode_def
  initialState_def purgeLocals_def resolveTarget_def TrimPrefix_def followChoice_def
  processChoice_def processNode_def queueNonEmpty_def loopBody_def buildGraph_def
  while_option_unfold Let_def

section \<open>The condition evaluator\<close>

lemma evalPart_total: "evalPart p st \<noteq> None"
proof -
  have a: "slice_at (Split s ''!='') (Suc 0) \<noteq> None" if "Contains s ''!=''" for s
    using that by (simp add: Contains_def slice_at_1_Split)
  have b: "slice_at (Split s ''=='') (Suc 0) \<noteq> None" if "Contains s ''==''" for s
    using that by (simp add: Contains_def slice_at_1_Split)
  show ?thesis
    using a[of "TrimSpace p"] b[of "TrimSpace p"]
      slice_at_0_Split[of "TrimSpace p" "CHR ''!''" "''=''"]
      slice_at_0_Split[of "TrimSpace p" "CHR ''=''" "''=''"]
    by (auto simp: evalPart_def Let_def split: option.splits)
qed

lemma evalParts_total: "evalParts ps st \<noteq> None"
  by (induction ps) (auto simp: evalPart_total split: option.splits)

lemma evaluateCondition_total: "evaluateCondition c st \<noteq> None"
  by (simp add: evaluateCondition_def evalParts_total)

lemma conditionHolds_total: "conditionHolds c st \<noteq> None"
  using evaluateCondition_total[of c st] by (auto simp: conditionHolds_def)








section \<open>The state transition\<close>

lemma applyChanges_total_iff:
  "applyChanges st changes ast \<noteq> None \<longleftrightarrow> (\<forall>ch \<in> set changes. CHR ''='' \<in> set ch)"
proof (induction changes arbitrary: st)
  case Nil
  then show ?case by simp
next
  case (Cons ch changes)
  show ?case
  proof (cases "CHR ''='' \<in> set ch")
    case True
    then have "Index ch ''='' \<noteq> None" by (simp add: Index_single_None_iff)
    then obtain p1 where p1: "slice_at (Split ch ''='') (Suc 0) = Some p1"
      using slice_at_1_Split[of ch "CHR ''=''" "[]"] by auto
    obtain p0 where p0: "slice_at (Split ch ''='') 0 = Some p0"
      using slice_at_0_Split[of ch "CHR ''=''" "[]"] by auto
    from True p0 p1 Cons.IH show ?thesis by (simp add: Let_def)
  next
    case False
    then have "Index ch ''='' = None" by (simp add: Index_single_None_iff)
    then have "slice_at (Split ch ''='') (Suc 0) = None"
      by (simp add: slice_at_1_Split)
    with False show ?thesis by (simp add: Let_def split: option.splits)
  qed
qed

text \<open>
  C10: \<open>applyStateChanges\<close> returns a state vector exactly when every state change of
  the choice contains the character \<open>=\<close>; for a state change without it, \<open>Split\<close> yields
  one piece and the access \<open>parts[1]\<close> is out of range.
\<close>

theorem applyStateChanges_total_iff:
  "((\<exists>st'. applyStateChanges st choice ast = Some st') \<longleftrightarrow>
      (\<forall>change \<in> set (StateChanges choice). CHR ''='' \<in> set change)) \<and>
   (\<forall>change. CHR ''='' \<notin> set change \<longrightarrow>
      Split change ''='' = [change] \<and> slice_at (Split change ''='') 1 = None)"
proof -
  have "(\<exists>st'. applyStateChanges st choice ast = Some st') \<longleftrightarrow>
      (\<forall>change \<in> set (StateChanges choice). CHR ''='' \<in> set change)"
    using applyChanges_total_iff[of st "StateChanges choice" ast]
    by (auto simp: applyStateChanges_def)
  moreover have "Split change ''='' = [change] \<and> slice_at (Split change ''='') 1 = None"
    if "CHR ''='' \<notin> set change" for change
    using that by (simp add: Index_absent Split_None slice_at_def)
  ultimately show ?thesis by blast
qed

theorem applyStateChanges_total_iff_witness:
  "(\<exists>st'. applyStateChanges (fmupd ''has_key'' False fmempty)
            \<lparr>Choice_Text = ''Look for a key.'', Choice_Condition = ''has_key == false'',
             StateChanges = [''has_key = true''], TargetKnot = [], Choice_Stitch = []\<rparr>
            doorScript = Some st') \<and>
   \<not> (\<exists>st'. applyStateChanges (fmupd ''has_key'' False fmempty)
            \<lparr>Choice_Text = ''Look for a key.'', Choice_Condition = ''has_key == false'',
             StateChanges = [''has_key''], TargetKnot = [], Choice_Stitch = []\<rparr>
            doorScript = Some st') \<and>
   slice_at (Split ''has_key'' ''='') 1 = None"
  using applyStateChanges_total_iff[of "fmupd ''has_key'' False fmempty"
      "\<lparr>Choice_Text = ''Look for a key.'', Choice_Condition = ''has_key == false'',
        StateChanges = [''has_key = true''], TargetKnot = [], Choice_Stitch = []\<rparr>" doorScript]
    applyStateChanges_total_iff[of "fmupd ''has_key'' False fmempty"
      "\<lparr>Choice_Text = ''Look for a key.'', Choice_Condition = ''has_key == false'',
        StateChanges = [''has_key''], TargetKnot = [], Choice_Stitch = []\<rparr>" doorScript]
  by simp

section \<open>The canonical node identity\<close>

lemma Join_snoc: "Join (xs @ [x]) sep = (if xs = [] then x else Join xs sep @ sep @ x)"
  by (induction xs sep rule: Join.induct) auto

lemma fmtBool_suffix_inj:
  assumes "A @ fmtBool b1 = B @ fmtBool b2"
  shows "b1 = b2 \<and> A = B"
proof -
  from assms have r: "rev (fmtBool b1) @ rev A = rev (fmtBool b2) @ rev B"
    by (metis rev_append)
  have "b1 = b2"
  proof (rule ccontr)
    assume "b1 \<noteq> b2"
    with r show False by (cases b1; cases b2) (simp_all add: fmtBool_def)
  qed
  with assms show ?thesis by simp
qed

lemma stateParts_snoc:
  "stateParts (ks @ [k]) st = stateParts ks st @ [k @ ''='' @ fmtBool (get st k)]"
  by (simp add: stateParts_def)

lemma stateParts_Nil_iff: "stateParts ks st = [] \<longleftrightarrow> ks = []"
  by (simp add: stateParts_def)

lemma Join_stateParts_inj:
  "x1 @ Join (stateParts ks s1) '','' = x2 @ Join (stateParts ks s2) '',''
     \<Longrightarrow> x1 = x2 \<and> (\<forall>k \<in> set ks. get s1 k = get s2 k)"
proof (induction ks arbitrary: x1 x2 rule: rev_induct)
  case Nil
  then show ?case by (simp add: stateParts_def)
next
  case (snoc k ks)
  show ?case
  proof (cases "ks = []")
    case True
    with snoc.prems
    have "(x1 @ k @ ''='') @ fmtBool (get s1 k) = (x2 @ k @ ''='') @ fmtBool (get s2 k)"
      by (simp add: stateParts_def)
    from fmtBool_suffix_inj[OF this] True show ?thesis by simp
  next
    case False
    with snoc.prems
    have "(x1 @ Join (stateParts ks s1) '','' @ '','' @ k @ ''='') @ fmtBool (get s1 k)
        = (x2 @ Join (stateParts ks s2) '','' @ '','' @ k @ ''='') @ fmtBool (get s2 k)"
      by (simp add: stateParts_snoc Join_snoc stateParts_Nil_iff)
    from fmtBool_suffix_inj[OF this]
    have b: "get s1 k = get s2 k"
      and "x1 @ Join (stateParts ks s1) '','' @ '','' @ k @ ''=''
         = x2 @ Join (stateParts ks s2) '','' @ '','' @ k @ ''=''"
      by simp_all
    then have "(x1 @ Join (stateParts ks s1) '','') @ ('','' @ k @ ''='')
         = (x2 @ Join (stateParts ks s2) '','') @ ('','' @ k @ ''='')"
      by simp
    then have "x1 @ Join (stateParts ks s1) '','' = x2 @ Join (stateParts ks s2) '',''"
      by (simp only: append_same_eq)
    from snoc.IH[OF this] b show ?thesis by simp
  qed
qed

lemma generateNodeID_inj:
  assumes dom: "fmdom s1 = fmdom s2"
    and eq: "generateNodeID u1 s1 = generateNodeID u2 s2"
  shows "u1 = u2 \<and> s1 = s2"
proof -
  let ?ks = "sorted_list_of_fset (fmdom s1)"
  from eq dom
  have "(u1 @ ''|'') @ Join (stateParts ?ks s1) '','' = (u2 @ ''|'') @ Join (stateParts ?ks s2) '',''"
    by (simp add: generateNodeID_def)
  from Join_stateParts_inj[OF this]
  have u: "u1 = u2" and g: "\<forall>k \<in> set ?ks. get s1 k = get s2 k" by simp_all
  have "fmlookup s1 k = fmlookup s2 k" for k
  proof (cases "k |\<in>| fmdom s1")
    case True
    with dom obtain a b where ab: "fmlookup s1 k = Some a" "fmlookup s2 k = Some b"
      by (metis fmlookup_dom_iff)
    from True g have "get s1 k = get s2 k" by simp
    with ab show ?thesis by (simp add: get_def)
  next
    case False
    with dom show ?thesis by (metis fmdom_notD)
  qed
  then have "s1 = s2" by (rule fmap_ext)
  with u show ?thesis by simp
qed

text \<open>
  For state vectors over a common domain, \<open>generateNodeID\<close> yields the same string
  exactly when the knot names are equal and the vectors agree on every variable (so the
  string depends on the content of the map alone, and differs as soon as the knot name or
  one value differs), and the string is the knot name, \<open>|\<close>, and the entries
  \<open>name=true\<close> or \<open>name=false\<close> joined by commas, the names in ascending order.
\<close>

lemma generateNodeID_same_domain:
  assumes "fmdom s1 = fmdom s2"
  shows "(generateNodeID u1 s1 = generateNodeID u2 s2 \<longleftrightarrow>
            u1 = u2 \<and> (\<forall>k. k |\<in>| fmdom s1 \<longrightarrow> fmlookup s1 k = fmlookup s2 k))
       \<and> (\<exists>ks. sorted ks \<and> distinct ks \<and> set ks = fmdom' s1 \<and>
             generateNodeID u1 s1 =
               u1 @ ''|'' @
               Join (map (\<lambda>k. k @ ''='' @
                        (if fmlookup s1 k = Some True then ''true'' else ''false'')) ks) '','')"
proof (intro conjI)
  show "generateNodeID u1 s1 = generateNodeID u2 s2 \<longleftrightarrow>
            u1 = u2 \<and> (\<forall>k. k |\<in>| fmdom s1 \<longrightarrow> fmlookup s1 k = fmlookup s2 k)"
  proof
    assume "generateNodeID u1 s1 = generateNodeID u2 s2"
    from generateNodeID_inj[OF assms this] show "u1 = u2 \<and> (\<forall>k. k |\<in>| fmdom s1 \<longrightarrow> fmlookup s1 k = fmlookup s2 k)"
      by simp
  next
    assume a: "u1 = u2 \<and> (\<forall>k. k |\<in>| fmdom s1 \<longrightarrow> fmlookup s1 k = fmlookup s2 k)"
    have "fmlookup s1 k = fmlookup s2 k" for k
    proof (cases "k |\<in>| fmdom s1")
      case True
      with a show ?thesis by simp
    next
      case False
      with assms show ?thesis by (metis fmdom_notD)
    qed
    then have "s1 = s2" by (rule fmap_ext)
    with a show "generateNodeID u1 s1 = generateNodeID u2 s2" by simp
  qed
next
  let ?ks = "sorted_list_of_fset (fmdom s1)"
  have "sorted ?ks" "distinct ?ks" "set ?ks = fmdom' s1"
    by (simp_all add: sorted_list_of_fset.rep_eq fmdom'_alt_def)
  moreover have "fmtBool (get s1 k) = (if fmlookup s1 k = Some True then ''true'' else ''false'')" for k
    by (auto simp: fmtBool_def get_def split: option.splits)
  then have "generateNodeID u1 s1 =
        u1 @ ''|'' @ Join (map (\<lambda>k. k @ ''='' @
                        (if fmlookup s1 k = Some True then ''true'' else ''false'')) ?ks) '',''"
    by (simp add: generateNodeID_def stateParts_def)
  ultimately show "\<exists>ks. sorted ks \<and> distinct ks \<and> set ks = fmdom' s1 \<and>
             generateNodeID u1 s1 =
               u1 @ ''|'' @
               Join (map (\<lambda>k. k @ ''='' @
                        (if fmlookup s1 k = Some True then ''true'' else ''false'')) ks) '',''"
    by blast
qed

lemma generateNodeID_same_domain_example:
  "fmdom (fmupd ''b'' True (fmupd ''a'' False fmempty))
     = fmdom (fmupd ''a'' False (fmupd ''b'' True fmempty)) \<and>
   generateNodeID ''index'' (fmupd ''b'' True (fmupd ''a'' False fmempty))
     = generateNodeID ''index'' (fmupd ''a'' False (fmupd ''b'' True fmempty)) \<and>
   generateNodeID ''index'' (fmupd ''b'' True (fmupd ''a'' False fmempty))
     = ''index|a=false,b=true''"
proof -
  have d: "fmdom (fmupd ''b'' True (fmupd ''a'' False fmempty))
     = fmdom (fmupd ''a'' False (fmupd ''b'' True fmempty))" by auto
  have "generateNodeID ''index'' (fmupd ''b'' True (fmupd ''a'' False fmempty))
     = ''index|a=false,b=true''"
    by (simp add: generateNodeID_def stateParts_def sorted_list_of_fset_finsert
        sorted_list_of_fset_empty get_def fmtBool_def)
  with generateNodeID_same_domain[OF d, of "''index''" "''index''"] d show ?thesis by simp
qed

lemmas id_eval =
  generateNodeID_def stateParts_def sorted_list_of_fset_finsert sorted_list_of_fset_empty
  get_def fmtBool_def

text \<open>
  C7: the identity is not unique. The comment of \<open>generateNodeID\<close> says that it creates
  a unique identity for a node, and the claim that two inputs of different knot names, or
  with a different value of a variable, have different identities. The function writes the
  knot name and the names of the variables as they are, so the characters \<open>|\<close>,
  \<open>=\<close> and \<open>,\<close> of a name read as its separators: the knot \<open>x\<close> with the
  state in which \<open>|y\<close> is false and the knot \<open>x|\<close> with the state in which
  \<open>y\<close> is false have one identity, \<open>x||y=false\<close>.
\<close>

theorem generateNodeID_collision:
  "generateNodeID ''x'' (fmupd ''|y'' False fmempty) = ''x||y=false'' \<and>
   generateNodeID ''x|'' (fmupd ''y'' False fmempty) = ''x||y=false''"
  by (simp add: id_eval)

section \<open>The traversal\<close>

lemma finite_bounded_states:
  assumes "finite V"
  shows "finite {st :: state. fmdom' st \<subseteq> V}"
proof -
  have eq: "{f :: string \<rightharpoonup> bool. dom f \<subseteq> V}
      = (\<Union>A \<in> Pow V. {f. dom f = A \<and> ran f \<subseteq> UNIV})"
    by auto
  have "finite (\<Union>A \<in> Pow V. {f :: string \<rightharpoonup> bool. dom f = A \<and> ran f \<subseteq> UNIV})"
  proof (rule finite_UN_I)
    show "finite (Pow V)" using assms by simp
  next
    fix A assume "A \<in> Pow V"
    then have "finite A" using assms by (auto intro: finite_subset)
    then show "finite {f :: string \<rightharpoonup> bool. dom f = A \<and> ran f \<subseteq> UNIV}"
      by (rule finite_set_of_finite_maps) simp
  qed
  with eq have fin: "finite {f :: string \<rightharpoonup> bool. dom f \<subseteq> V}"
    by (simp only:)
  have "dom (fmlookup st) = fmdom' st" for st :: state
    by (rule set_eqI) (simp add: fmlookup_dom'_iff domIff)
  then have "fmlookup ` {st :: state. fmdom' st \<subseteq> V} \<subseteq> {f. dom f \<subseteq> V}"
    by blast
  then have "finite (fmlookup ` {st :: state. fmdom' st \<subseteq> V})"
    using fin by (rule finite_subset)
  moreover have "inj_on fmlookup {st :: state. fmdom' st \<subseteq> V}"
    by (auto simp: inj_on_def fmlookup_inject)
  ultimately show ?thesis by (rule finite_imageD)
qed

lemma finite_assignedNames: "finite (assignedNames ast)"
  by (auto simp: assignedNames_def fmran'_alt_def)

lemma slice_at_0: "slice_at xs 0 = Some x \<Longrightarrow> x = hd xs"
  by (cases xs) (auto simp: slice_at_def)

lemma applyChanges_dom:
  "applyChanges st chs ast = Some st' \<Longrightarrow>
     fmdom' st \<subseteq> fmdom' st' \<and> fmdom' st' \<subseteq> fmdom' st \<union> changeName ` set chs"
proof (induction chs arbitrary: st)
  case Nil
  then show ?case by simp
next
  case (Cons ch chs)
  from Cons.prems obtain p0 p1 where p: "slice_at (Split ch ''='') 0 = Some p0"
      "slice_at (Split ch ''='') (Suc 0) = Some p1"
    by (auto simp: Let_def split: option.splits)
  from slice_at_0[OF p(1)] have nm: "TrimSpace p0 = changeName ch" by (simp add: changeName_def)
  show ?case
  proof (cases "fmlookup (GlobalStates ast) (TrimSpace p0) = Some True \<and> \<not> (TrimSpace p1 = ''true'')")
    case True
    with Cons.prems p have "applyChanges st chs ast = Some st'" by (simp add: Let_def)
    from Cons.IH[OF this] show ?thesis by auto
  next
    case False
    with Cons.prems p
    have "applyChanges (fmupd (TrimSpace p0) (TrimSpace p1 = ''true'') st) chs ast = Some st'"
      by (auto simp: Let_def)
    from Cons.IH[OF this] nm show ?thesis by auto
  qed
qed

lemma followChoice_dom:
  assumes "followChoice ast u st knot c = Inr (Some (t, tk, st'))"
  shows "fmdom' st \<subseteq> fmdom' st' \<and>
         fmdom' st' \<subseteq> fmdom' st \<union> changeName ` set (StateChanges c) \<union> fmdom' (LocalStates ast)"
proof -
  from assms obtain ns where ns: "applyStateChanges st c ast = Some ns"
    and st': "st' = purgeLocals ast ns \<or> st' = ns"
    by (auto simp: followChoice_def split: option.splits if_splits)
  from applyChanges_dom[OF ns[unfolded applyStateChanges_def]] st'
  show ?thesis by (auto simp: purgeLocals_def)
qed

lemma followChoice_Some_lookup:
  "followChoice ast u st knot c = Inr (Some (t, tk, st')) \<Longrightarrow> fmlookup (Knots ast) t = Some tk"
  by (auto simp: followChoice_def split: option.splits if_splits)

lemma fmdom'_initialState:
  "fmdom' (initialState ast) = fmdom' (GlobalStates ast) \<union> fmdom' (LocalStates ast)"
  by (simp add: initialState_def)

lemma reachable_bounds:
  "reachable ast u st \<Longrightarrow>
     (u = ''index'' \<or> u \<in> fmdom' (Knots ast)) \<and>
     fmdom' (GlobalStates ast) \<union> fmdom' (LocalStates ast) \<subseteq> fmdom' st \<and>
     fmdom' st \<subseteq> fmdom' (GlobalStates ast) \<union> fmdom' (LocalStates ast) \<union> assignedNames ast"
proof (induction rule: reachable.induct)
  case start
  then show ?case by (simp add: fmdom'_initialState)
next
  case (step u st knot choice t targetKnot st')
  from step.hyps(2) have "knot \<in> fmran' (Knots ast)" by (rule fmran'I)
  with step.hyps(3) have "changeName ` set (StateChanges choice) \<subseteq> assignedNames ast"
    by (auto simp: assignedNames_def)
  moreover from followChoice_Some_lookup[OF step.hyps(4)] have "t \<in> fmdom' (Knots ast)"
    by (rule fmdom'I)
  ultimately show ?case using followChoice_dom[OF step.hyps(4)] step.IH by blast
qed

lemma finite_idUniverse: "finite (idUniverse ast)"
proof -
  let ?V = "fmdom' (GlobalStates ast) \<union> fmdom' (LocalStates ast) \<union> assignedNames ast"
  let ?A = "insert ''index'' (fmdom' (Knots ast))"
  let ?B = "{st :: state. fmdom' st \<subseteq> ?V}"
  have "finite ?V" by (simp add: finite_assignedNames fmdom'_alt_def)
  then have "finite ?B" by (rule finite_bounded_states)
  moreover have "finite ?A" by (simp add: fmdom'_alt_def)
  ultimately have "finite ((\<lambda>(u, st). generateNodeID u st) ` (?A \<times> ?B))" by simp
  moreover have "idUniverse ast \<subseteq> (\<lambda>(u, st). generateNodeID u st) ` (?A \<times> ?B)"
  proof
    fix k assume "k \<in> idUniverse ast"
    then obtain u st where "k = generateNodeID u st" "reachable ast u st"
      by (auto simp: idUniverse_def)
    moreover from reachable_bounds[OF this(2)] have "(u, st) \<in> ?A \<times> ?B" by blast
    ultimately show "k \<in> (\<lambda>(u, st). generateNodeID u st) ` (?A \<times> ?B)"
      by (intro image_eqI[where x="(u, st)"]) simp_all
  qed
  ultimately show ?thesis by (rule rev_finite_subset)
qed

lemma declaredOnly_dom:
  assumes "declaredOnly ast" "reachable ast u st"
  shows "fmdom' st = fmdom' (GlobalStates ast) \<union> fmdom' (LocalStates ast)"
proof -
  from assms(1) have "assignedNames ast \<subseteq> fmdom' (GlobalStates ast) \<union> fmdom' (LocalStates ast)"
    by (auto simp: declaredOnly_def assignedNames_def fmdom'_alt_def)
  with reachable_bounds[OF assms(2)] show ?thesis by auto
qed

lemma selectContent_total: "selectContent blocks st \<noteq> None"
  using conditionHolds_total by (induction blocks) (auto split: option.splits)

lemma createNode_total:
  "createNode t tk st =
     Inr \<lparr>KnotName = t, Node_Scene = Knot_Scene tk, State = st,
          Node_Content = the (selectContent (Body tk) st), Edges = [],
          Node_IsEnd = Knot_IsEnd tk, Node_Stitch = []\<rparr>"
  using selectContent_total[of "Body tk" st] by (auto simp: createNode_def split: option.splits)

lemma createNode_fields:
  assumes "createNode t tk st = Inr nn"
  shows "KnotName nn = t" "State nn = st" "Edges nn = []" "Node_Scene nn = Knot_Scene tk"
  using assms by (auto simp: createNode_def split: option.splits)

lemma expectedEdges_snoc:
  "expectedEdges ast u st knot (cs @ [c]) = expectedEdges ast u st knot cs @ expectedEdge ast u st knot c"
  by (simp add: expectedEdges_def)

lemma nodeDone_mono:
  assumes "nodeDone ast G n cs" "fmdom G |\<subseteq>| fmdom G'"
  shows "nodeDone ast G' n cs"
proof -
  have "choiceDone ast G u st knot c \<Longrightarrow> choiceDone ast G' u st knot c" for u st knot c
    using assms(2) by (auto simp: choiceDone_def split: sum.splits option.splits)
  with assms(1) show ?thesis unfolding nodeDone_def by blast
qed

lemma nodeDone_Nil:
  "nodeDone ast G n [] \<longleftrightarrow> (\<exists>knot. fmlookup (Knots ast) (KnotName n) = Some knot) \<and> Edges n = []"
  by (auto simp: nodeDone_def expectedEdges_def)

lemma InvD:
  assumes "Inv ast cur (G, q, v)"
  shows "\<And>k. get v k \<longleftrightarrow> k |\<in>| fmdom G"
    and "generateNodeID ''index'' (initialState ast) |\<in>| fmdom G"
    and "distinct q" and "\<And>k. k \<in> set q \<Longrightarrow> k |\<in>| fmdom G"
    and "\<And>cid cs. cur = Some (cid, cs) \<Longrightarrow> cid \<notin> set q \<and> cid |\<in>| fmdom G"
    and "\<And>k n. fmlookup G k = Some n \<Longrightarrow> nodeOK ast k n"
    and "\<And>k n. fmlookup G k = Some n \<Longrightarrow> nodeDone ast G n (progress ast q cur k n)"
  using assms by (auto simp: Inv_def)

lemma InvI:
  assumes "\<And>k. get v k \<longleftrightarrow> k |\<in>| fmdom G"
    and "generateNodeID ''index'' (initialState ast) |\<in>| fmdom G"
    and "distinct q" and "\<And>k. k \<in> set q \<Longrightarrow> k |\<in>| fmdom G"
    and "\<And>cid cs. cur = Some (cid, cs) \<Longrightarrow> cid \<notin> set q \<and> cid |\<in>| fmdom G"
    and "\<And>k n. fmlookup G k = Some n \<Longrightarrow> nodeOK ast k n"
    and "\<And>k n. fmlookup G k = Some n \<Longrightarrow> nodeDone ast G n (progress ast q cur k n)"
  shows "Inv ast cur (G, q, v)"
  using assms by (auto simp: Inv_def)

lemma processChoice_Inv:
  assumes inv: "Inv ast (Some (cid, cs)) (G, q, v)"
    and n: "fmlookup G cid = Some n"
    and knot: "fmlookup (Knots ast) (KnotName n) = Some knot"
    and c: "c \<in> set (Choices knot)"
    and res: "processChoice ast cid knot (G, q, v) c = Inr (G', q', v')"
  shows "Inv ast (Some (cid, cs @ [c])) (G', q', v') \<and>
         (\<exists>n'. fmlookup G' cid = Some n' \<and> KnotName n' = KnotName n \<and> State n' = State n) \<and>
         grows (G, q, v) (G', q', v')"
proof -
  note I = InvD[OF inv]
  have cidq: "cid \<notin> set q" and cidG: "cid |\<in>| fmdom G" using I(5) by simp_all
  have okn: "nodeOK ast cid n" using I(6)[OF n] .
  have "progress ast q (Some (cid, cs)) cid n = cs" using cidq by (simp add: progress_def)
  with I(7)[OF n] have donen: "nodeDone ast G n cs" by simp
  have reach: "reachable ast (KnotName n) (State n)" using okn by (simp add: nodeOK_def)
  show ?thesis
  proof (cases "followChoice ast (KnotName n) (State n) knot c")
    case (Inl e)
    with res n show ?thesis by (simp add: processChoice_def)
  next
    case (Inr r)
    show ?thesis
    proof (cases r)
      case None
      with Inr res n have eq: "G' = G" "q' = q" "v' = v" by (simp_all add: processChoice_def)
      have ee: "expectedEdge ast (KnotName n) (State n) knot c = []"
        using Inr None by (simp add: expectedEdge_def)
      have cd: "choiceDone ast G (KnotName n) (State n) knot c"
        using Inr None by (simp add: choiceDone_def)
      have donen': "nodeDone ast G n (cs @ [c])"
        using donen knot ee cd by (auto simp: nodeDone_def expectedEdges_snoc)
      have "Inv ast (Some (cid, cs @ [c])) (G, q, v)"
      proof (rule InvI)
        fix k n0 assume l: "fmlookup G k = Some n0"
        show "nodeDone ast G n0 (progress ast q (Some (cid, cs @ [c])) k n0)"
        proof (cases "k = cid")
          case True
          with l n have "n0 = n" by simp
          with True cidq donen' show ?thesis by (simp add: progress_def)
        next
          case False
          then have "progress ast q (Some (cid, cs @ [c])) k n0 = progress ast q (Some (cid, cs)) k n0"
            by (simp add: progress_def)
          with I(7)[OF l] show ?thesis by simp
        qed
      qed (use I in auto)
      with eq n show ?thesis by (simp add: grows_def)
    next
      case (Some trip)
      obtain t tk st' where trip: "trip = (t, tk, st')" by (cases trip) auto
      note fc = Inr[unfolded Some trip]
      have tk: "fmlookup (Knots ast) t = Some tk" using followChoice_Some_lookup[OF fc] .
      define nn where "nn = \<lparr>KnotName = t, Node_Scene = Knot_Scene tk, State = st',
          Node_Content = the (selectContent (Body tk) st'), Edges = [],
          Node_IsEnd = Knot_IsEnd tk, Node_Stitch = []\<rparr>"
      have cn: "createNode t tk st' = Inr nn" unfolding nn_def by (rule createNode_total)
      define ID where "ID = generateNodeID t st'"
      define edge where "edge = \<lparr>Edge_Text = Choice_Text c, TargetNodeID = ID,
                                 Edge_Stitch = Choice_Stitch c\<rparr>"
      define n1 where "n1 = n\<lparr>Edges := Edges n @ [edge]\<rparr>"
      define G1 where "G1 = fmupd cid n1 G"
      have nnf: "KnotName nn = t" "State nn = st'" "Edges nn = []" by (simp_all add: nn_def)
      have res': "(G', q', v') =
          (if \<not> get v ID then (fmupd ID nn G1, q @ [ID], fmupd ID True v) else (G1, q, v))"
        using res n fc cn nnf
        by (simp add: processChoice_def Let_def ID_def edge_def n1_def G1_def split: if_splits)
      have ee: "expectedEdge ast (KnotName n) (State n) knot c = [edge]"
        using fc by (simp add: expectedEdge_def edge_def ID_def)
      have n1f: "KnotName n1 = KnotName n" "State n1 = State n" "n1\<lparr>Edges := []\<rparr> = n\<lparr>Edges := []\<rparr>"
        by (simp_all add: n1_def)
      have okn1: "nodeOK ast cid n1" using okn n1f by (simp add: nodeOK_def)
      have domG1: "fmdom G1 = fmdom G" using cidG by (auto simp: G1_def)
      have reach': "reachable ast t st'"
        using reachable.step[OF reach knot c fc] .
      have oknn: "nodeOK ast ID nn"
        using reach' tk cn nnf by (auto simp: nodeOK_def ID_def nn_def)
      have edges1: "Edges n1 = expectedEdges ast (KnotName n) (State n) knot (cs @ [c])"
        using donen knot ee by (auto simp: nodeDone_def expectedEdges_snoc n1_def)
      have olddone: "choiceDone ast G (KnotName n) (State n) knot c0" if "c0 \<in> set cs" for c0
        using donen knot that by (auto simp: nodeDone_def)
      have mono: "choiceDone ast G u0 s0 k0 c0 \<Longrightarrow> choiceDone ast H u0 s0 k0 c0"
        if "fmdom G |\<subseteq>| fmdom H" for H u0 s0 k0 c0
        using that by (auto simp: choiceDone_def split: sum.splits option.splits)
      show ?thesis
      proof (cases "get v ID")
        case True
        with res' have eq: "G' = G1" "q' = q" "v' = v" by simp_all
        from True I(1) have IDG: "ID |\<in>| fmdom G" by simp
        have cd: "choiceDone ast G1 (KnotName n) (State n) knot c"
          using fc IDG domG1 by (simp add: choiceDone_def ID_def)
        have done1: "nodeDone ast G1 n1 (cs @ [c])"
          unfolding nodeDone_def using knot edges1 cd olddone mono[of G1] domG1 n1f
          by auto
        have "Inv ast (Some (cid, cs @ [c])) (G1, q, v)"
        proof (rule InvI)
          fix k n0 assume l: "fmlookup G1 k = Some n0"
          show "nodeOK ast k n0"
            using l okn1 I(6) by (auto simp: G1_def split: if_splits)
          show "nodeDone ast G1 n0 (progress ast q (Some (cid, cs @ [c])) k n0)"
          proof (cases "k = cid")
            case True
            with l have "n0 = n1" by (simp add: G1_def)
            with True cidq done1 show ?thesis by (simp add: progress_def)
          next
            case False
            with l have l0: "fmlookup G k = Some n0" by (simp add: G1_def)
            from False have "progress ast q (Some (cid, cs @ [c])) k n0 = progress ast q (Some (cid, cs)) k n0"
              by (simp add: progress_def)
            with I(7)[OF l0] nodeDone_mono[of ast G n0 _ G1] domG1 show ?thesis by simp
          qed
        qed (use I domG1 in auto)
        moreover have "fmlookup G1 cid = Some n1" by (simp add: G1_def)
        ultimately show ?thesis using eq n1f domG1 by (simp add: grows_def)
      next
        case False
        with res' have eq: "G' = fmupd ID nn G1" "q' = q @ [ID]" "v' = fmupd ID True v" by simp_all
        from False I(1) have IDG: "ID |\<notin>| fmdom G" by simp
        with cidG have neq: "ID \<noteq> cid" by auto
        from IDG I(4) have IDq: "ID \<notin> set q" by auto
        define G2 where "G2 = fmupd ID nn G1"
        have domG2: "fmdom G2 = finsert ID (fmdom G)" by (simp add: G2_def domG1)
        have sub: "fmdom G |\<subseteq>| fmdom G2" using domG2 by auto
        have cd: "choiceDone ast G2 (KnotName n) (State n) knot c"
          using fc domG2 by (simp add: choiceDone_def ID_def)
        have done1: "nodeDone ast G2 n1 (cs @ [c])"
          unfolding nodeDone_def using knot edges1 cd olddone mono[OF sub] n1f
          by auto
        have "Inv ast (Some (cid, cs @ [c])) (G2, q @ [ID], fmupd ID True v)"
        proof (rule InvI)
          fix k show "get (fmupd ID True v) k \<longleftrightarrow> k |\<in>| fmdom G2"
            using I(1)[of k] domG2 by (auto simp: get_def)
        next
          show "generateNodeID ''index'' (initialState ast) |\<in>| fmdom G2"
            using I(2) domG2 by simp
        next
          show "distinct (q @ [ID])" using I(3) IDq by simp
        next
          fix k assume "k \<in> set (q @ [ID])"
          then show "k |\<in>| fmdom G2" using I(4) domG2 by auto
        next
          fix cid' cs' assume "Some (cid, cs @ [c]) = Some (cid', cs')"
          then show "cid' \<notin> set (q @ [ID]) \<and> cid' |\<in>| fmdom G2"
            using cidq cidG neq domG2 by auto
        next
          fix k n0 assume l: "fmlookup G2 k = Some n0"
          show "nodeOK ast k n0"
            using l okn1 oknn I(6) by (auto simp: G2_def G1_def split: if_splits)
          show "nodeDone ast G2 n0 (progress ast (q @ [ID]) (Some (cid, cs @ [c])) k n0)"
          proof (cases "k = ID")
            case True
            with l have "n0 = nn" by (simp add: G2_def)
            with True tk nnf show ?thesis by (simp add: progress_def nodeDone_Nil)
          next
            case kID: False
            show ?thesis
            proof (cases "k = cid")
              case True
              with l neq have "n0 = n1" by (simp add: G2_def G1_def)
              with True cidq neq done1 show ?thesis by (simp add: progress_def)
            next
              case False
              with l kID have l0: "fmlookup G k = Some n0" by (simp add: G2_def G1_def)
              from False kID have "progress ast (q @ [ID]) (Some (cid, cs @ [c])) k n0
                  = progress ast q (Some (cid, cs)) k n0"
                by (simp add: progress_def)
              with nodeDone_mono[OF I(7)[OF l0] sub] show ?thesis by simp
            qed
          qed
        qed
        moreover have "fmlookup G2 cid = Some n1" using neq by (simp add: G2_def G1_def)
        moreover have "grows (G, q, v) (G2, q @ [ID], fmupd ID True v)"
          using IDG domG2 by (auto simp: grows_def)
        ultimately show ?thesis using eq n1f by (simp add: G2_def)
      qed
    qed
  qed
qed

lemma processChoice_Inl:
  assumes inv: "Inv ast (Some (cid, cs)) (G, q, v)"
    and n: "fmlookup G cid = Some n"
    and knot: "fmlookup (Knots ast) (KnotName n) = Some knot"
    and c: "c \<in> set (Choices knot)"
    and res: "processChoice ast cid knot (G, q, v) c = Inl e"
  shows "errJustified ast e"
proof -
  have reach: "reachable ast (KnotName n) (State n)"
    using InvD(6)[OF inv n] by (simp add: nodeOK_def)
  from res n have "followChoice ast (KnotName n) (State n) knot c = Inl e"
    by (auto simp: processChoice_def createNode_total Let_def
        split: sum.splits option.splits prod.splits if_splits)
  with reach knot c show ?thesis unfolding errJustified_def by blast
qed

lemma Inv_dom_universe:
  assumes "Inv ast cur (G, q, v)"
  shows "fmdom' G \<subseteq> idUniverse ast"
proof
  fix k assume "k \<in> fmdom' G"
  then obtain n where "fmlookup G k = Some n" by (auto simp: fmlookup_dom'_iff)
  from InvD(6)[OF assms this] show "k \<in> idUniverse ast"
    by (auto simp: nodeOK_def idUniverse_def)
qed

lemma grows_mu:
  assumes "grows (G, q, v) (G', q', v')" "fmdom' G' \<subseteq> U" "finite U"
  shows "mu U (G', q', v') \<le> mu U (G, q, v)"
proof -
  from assms(1) consider "fmdom G' = fmdom G" "q' = q"
    | ID where "ID |\<notin>| fmdom G" "fmdom G' = finsert ID (fmdom G)" "q' = q @ [ID]"
    by (auto simp: grows_def)
  then show ?thesis
  proof cases
    case 1
    then show ?thesis by (simp add: mu_def fmdom'_alt_def)
  next
    case 2
    then have d: "fmdom' G' = insert ID (fmdom' G)" and nin: "ID \<notin> fmdom' G"
      by (simp_all add: fmdom'_alt_def)
    with assms(2) have "ID \<in> U - fmdom' G" by auto
    moreover have "U - fmdom' G' = (U - fmdom' G) - {ID}" using d by auto
    ultimately have "card (U - fmdom' G') = card (U - fmdom' G) - 1" "card (U - fmdom' G) > 0"
      using assms(3) by (auto simp: card_gt_0_iff)
    with 2 show ?thesis by (simp add: mu_def)
  qed
qed

lemma processChoices_Inv:
  assumes "Inv ast (Some (cid, cs)) (G, q, v)"
    and "fmlookup G cid = Some n"
    and "fmlookup (Knots ast) (KnotName n) = Some knot"
    and "set rest \<subseteq> set (Choices knot)"
    and "finite U" "idUniverse ast \<subseteq> U"
  shows "case processChoices ast cid knot (G, q, v) rest of
           Inl e \<Rightarrow> errJustified ast e
         | Inr w' \<Rightarrow> Inv ast (Some (cid, cs @ rest)) w' \<and> mu U w' \<le> mu U (G, q, v) \<and>
             (\<exists>n'. fmlookup (fst w') cid = Some n' \<and> KnotName n' = KnotName n)"
  using assms(1-4)
proof (induction rest arbitrary: cs G q v n)
  case Nil
  then show ?case by simp
next
  case (Cons c rest)
  from Cons.prems(4) have c: "c \<in> set (Choices knot)" and r: "set rest \<subseteq> set (Choices knot)"
    by simp_all
  show ?case
  proof (cases "processChoice ast cid knot (G, q, v) c")
    case (Inl e)
    from processChoice_Inl[OF Cons.prems(1-3) c Inl] Inl show ?thesis by simp
  next
    case (Inr w1)
    obtain G1 q1 v1 where w1: "w1 = (G1, q1, v1)" by (cases w1) auto
    from processChoice_Inv[OF Cons.prems(1-3) c Inr[unfolded w1]]
    obtain n1 where inv1: "Inv ast (Some (cid, cs @ [c])) (G1, q1, v1)"
      and n1: "fmlookup G1 cid = Some n1" "KnotName n1 = KnotName n"
      and g: "grows (G, q, v) (G1, q1, v1)"
      by blast
    from Inv_dom_universe[OF inv1] assms(6) have "fmdom' G1 \<subseteq> U" by blast
    from grows_mu[OF g this assms(5)] have m1: "mu U (G1, q1, v1) \<le> mu U (G, q, v)" .
    from Cons.prems(3) n1(2) have k1: "fmlookup (Knots ast) (KnotName n1) = Some knot" by simp
    from Cons.IH[OF inv1 n1(1) k1 r] m1 Inr w1 n1(2) show ?thesis
      by (auto split: sum.splits)
  qed
qed

lemma processNode_Inv:
  assumes inv: "Inv ast None (G, cid # rest, v)"
    and U: "finite U" "idUniverse ast \<subseteq> U"
  shows "loopInv ast (processNode ast (G, cid # rest, v)) \<and>
         loopMeasure U (processNode ast (G, cid # rest, v)) < mu U (G, cid # rest, v)"
proof -
  note I = InvD[OF inv]
  from I(4)[of cid] obtain n where n: "fmlookup G cid = Some n"
    by (auto simp: fmlookup_dom_iff)
  from I(6)[OF n] obtain knot where knot: "fmlookup (Knots ast) (KnotName n) = Some knot"
    by (auto simp: nodeOK_def)
  have pn: "processNode ast (G, cid # rest, v) = processChoices ast cid knot (G, rest, v) (Choices knot)"
    using n knot by (simp add: processNode_def)
  have inv0: "Inv ast (Some (cid, [])) (G, rest, v)"
  proof (rule InvI)
    fix k n0 assume l: "fmlookup G k = Some n0"
    show "nodeDone ast G n0 (progress ast rest (Some (cid, [])) k n0)"
      using I(7)[OF l] by (auto simp: progress_def split: if_splits)
  qed (use I in auto)
  have m0: "mu U (G, rest, v) < mu U (G, cid # rest, v)" by (simp add: mu_def)
  show ?thesis
  proof (cases "processChoices ast cid knot (G, rest, v) (Choices knot)")
    case (Inl e)
    with processChoices_Inv[OF inv0 n knot subset_refl U] have "errJustified ast e" by simp
    with Inl pn m0 show ?thesis by (simp add: loopInv_def loopMeasure_def)
  next
    case (Inr w')
    obtain G' q' v' where w': "w' = (G', q', v')" by (cases w') auto
    from processChoices_Inv[OF inv0 n knot subset_refl U] Inr w'
    obtain n' where inv1: "Inv ast (Some (cid, Choices knot)) (G', q', v')"
      and m1: "mu U (G', q', v') \<le> mu U (G, rest, v)"
      and n': "fmlookup G' cid = Some n'" "KnotName n' = KnotName n" by auto
    note J = InvD[OF inv1]
    have "Inv ast None (G', q', v')"
    proof (rule InvI)
      fix k n0 assume l: "fmlookup G' k = Some n0"
      show "nodeDone ast G' n0 (progress ast q' None k n0)"
      proof (cases "k = cid")
        case True
        have "cid \<notin> set q'" using J(5) by simp
        moreover have "fmlookup (Knots ast) (KnotName n0) = Some knot"
          using l True n' knot by simp
        ultimately show ?thesis using J(7)[OF l] True by (simp add: progress_def allChoices_def)
      next
        case False
        with J(7)[OF l] show ?thesis by (simp add: progress_def split: if_splits)
      qed
    qed (use J in auto)
    with Inr pn m0 m1 w' show ?thesis by (simp add: loopInv_def loopMeasure_def)
  qed
qed

lemma loop_step:
  assumes "loopInv ast x" "queueNonEmpty x"
  shows "loopInv ast (loopBody ast x) \<and>
         loopMeasure (idUniverse ast) (loopBody ast x) < loopMeasure (idUniverse ast) x"
proof -
  from assms(2) obtain G cid rest v where x: "x = Inr (G, cid # rest, v)"
    by (auto simp: queueNonEmpty_def neq_Nil_conv split: sum.splits)
  with assms(1) have "Inv ast None (G, cid # rest, v)" by (simp add: loopInv_def)
  from processNode_Inv[OF this finite_idUniverse subset_refl] x show ?thesis
    by (simp add: loopBody_def loopMeasure_def)
qed

lemma buildGraph_unfold:
  assumes "fmlookup (Knots ast) ''index'' = Some indexKnot"
  shows "buildGraph ast =
     map_option finish (while_option queueNonEmpty (loopBody ast) (startWork ast indexKnot))"
  using assms
  by (simp add: buildGraph_def createNode_total Let_def startWork_def rootNode_def finish_def)

lemma loopInv_start:
  assumes "fmlookup (Knots ast) ''index'' = Some indexKnot"
  shows "loopInv ast (startWork ast indexKnot)"
proof -
  let ?id = "generateNodeID ''index'' (initialState ast)"
  let ?G = "fmupd ?id (rootNode ast indexKnot) fmempty"
  have "Inv ast None (?G, [?id], fmupd ?id True fmempty)"
  proof (rule InvI)
    fix k n assume l: "fmlookup ?G k = Some n"
    then have k: "k = ?id" "n = rootNode ast indexKnot" by (auto split: if_splits)
    show "nodeOK ast k n"
      using k assms reachable.start[of ast]
      by (simp add: nodeOK_def rootNode_def createNode_total)
    show "nodeDone ast ?G n (progress ast [?id] None k n)"
      using k assms by (simp add: progress_def nodeDone_Nil rootNode_def)
  qed (auto simp: get_def)
  then show ?thesis by (simp add: loopInv_def startWork_def)
qed

lemma loop_result:
  assumes ik: "fmlookup (Knots ast) ''index'' = Some indexKnot"
  shows "\<exists>t. while_option queueNonEmpty (loopBody ast) (startWork ast indexKnot) = Some t \<and>
             loopInv ast t \<and> \<not> queueNonEmpty t"
proof -
  have "\<exists>t. while_option queueNonEmpty (loopBody ast) (startWork ast indexKnot) = Some t"
  proof (rule measure_while_option_Some[where P = "loopInv ast"
        and f = "loopMeasure (idUniverse ast)"])
    fix x assume "loopInv ast x" "queueNonEmpty x"
    then show "loopInv ast (loopBody ast x) \<and>
         loopMeasure (idUniverse ast) (loopBody ast x) < loopMeasure (idUniverse ast) x"
      by (rule loop_step)
  next
    show "loopInv ast (startWork ast indexKnot)" by (rule loopInv_start[OF ik])
  qed
  then obtain t where t: "while_option queueNonEmpty (loopBody ast) (startWork ast indexKnot) = Some t"
    by blast
  have "loopInv ast t"
  proof (rule while_option_rule[where P = "loopInv ast", OF _ t])
    fix x assume "loopInv ast x" "queueNonEmpty x"
    then show "loopInv ast (loopBody ast x)" using loop_step by blast
  next
    show "loopInv ast (startWork ast indexKnot)" by (rule loopInv_start[OF ik])
  qed
  with t while_option_stop[OF t] show ?thesis by blast
qed

lemma buildGraph_terminates: "buildGraph ast \<noteq> None"
proof (cases "fmlookup (Knots ast) ''index''")
  case None
  then show ?thesis by (simp add: buildGraph_def)
next
  case (Some indexKnot)
  from loop_result[OF Some] show ?thesis by (auto simp: buildGraph_unfold[OF Some])
qed

lemma buildGraph_Inr:
  assumes "buildGraph ast = Some (Inr g)"
  shows "\<exists>v. Inv ast None (Graph g, [], v)"
proof -
  from assms obtain indexKnot where ik: "fmlookup (Knots ast) ''index'' = Some indexKnot"
    by (auto simp: buildGraph_def split: option.splits)
  from loop_result[OF ik] obtain t
    where t: "while_option queueNonEmpty (loopBody ast) (startWork ast indexKnot) = Some t"
      and inv: "loopInv ast t" and stop: "\<not> queueNonEmpty t" by blast
  from assms t have "finish t = Inr g" by (simp add: buildGraph_unfold[OF ik])
  then obtain G q v where "t = Inr (G, q, v)" "Graph g = G"
    by (cases t) (auto simp: finish_def)
  with inv stop show ?thesis by (auto simp: loopInv_def queueNonEmpty_def)
qed

lemma buildGraph_Inl:
  assumes "buildGraph ast = Some (Inl e)"
  shows "(e = NoIndexKnot \<and> fmlookup (Knots ast) ''index'' = None) \<or>
         (fmlookup (Knots ast) ''index'' \<noteq> None \<and> errJustified ast e)"
proof (cases "fmlookup (Knots ast) ''index''")
  case None
  with assms show ?thesis by (simp add: buildGraph_def)
next
  case (Some indexKnot)
  from loop_result[OF Some] obtain t
    where t: "while_option queueNonEmpty (loopBody ast) (startWork ast indexKnot) = Some t"
      and inv: "loopInv ast t" by blast
  from assms t have "finish t = Inl e" by (simp add: buildGraph_unfold[OF Some])
  then have "t = Inl e" by (cases t) (auto simp: finish_def)
  with inv Some show ?thesis by (simp add: loopInv_def)
qed

lemma declaredOnly_uniqueIDs:
  assumes "declaredOnly ast"
  shows "uniqueIDs ast"
  unfolding uniqueIDs_def
proof (intro allI impI)
  fix u1 s1 u2 s2
  assume r: "reachable ast u1 s1" "reachable ast u2 s2"
    and eq: "generateNodeID u1 s1 = generateNodeID u2 s2"
  from declaredOnly_dom[OF assms r(1)] declaredOnly_dom[OF assms r(2)]
  have "fmdom' s1 = fmdom' s2" by simp
  then have "fmdom s1 = fmdom s2" by (simp add: fmdom'_alt_def fset_inject)
  from generateNodeID_inj[OF this eq] show "u1 = u2 \<and> s1 = s2" .
qed

lemma followChoice_purge:
  assumes "followChoice ast u st knot c = Inr (Some (t, tk, st'))"
    and "Knot_Scene knot \<noteq> Knot_Scene tk" and "l |\<in>| fmdom (LocalStates ast)"
  shows "fmlookup st' l = Some False"
proof -
  from assms(1,2) obtain ns where "st' = purgeLocals ast ns"
    by (auto simp: followChoice_def split: option.splits if_splits)
  moreover from assms(3) obtain b where "fmlookup (LocalStates ast) l = Some b"
    by (auto simp: fmlookup_dom_iff)
  ultimately show ?thesis using assms(3) by (simp add: purgeLocals_def)
qed

lemma applyChanges_flag:
  assumes "fmlookup (GlobalStates ast) x = Some True" "get st x"
    and "applyChanges st chs ast = Some st'"
  shows "get st' x"
  using assms(2,3)
proof (induction chs arbitrary: st)
  case Nil
  then show ?case by simp
next
  case (Cons ch chs)
  from Cons.prems(2) obtain p0 p1 where p: "slice_at (Split ch ''='') 0 = Some p0"
      "slice_at (Split ch ''='') (Suc 0) = Some p1"
    by (auto simp: Let_def split: option.splits)
  show ?case
  proof (cases "fmlookup (GlobalStates ast) (TrimSpace p0) = Some True \<and> \<not> (TrimSpace p1 = ''true'')")
    case True
    with Cons.prems p have "applyChanges st chs ast = Some st'" by (simp add: Let_def)
    from Cons.IH[OF Cons.prems(1) this] show ?thesis .
  next
    case False
    with Cons.prems p
    have a: "applyChanges (fmupd (TrimSpace p0) (TrimSpace p1 = ''true'') st) chs ast = Some st'"
      by (auto simp: Let_def)
    have "get (fmupd (TrimSpace p0) (TrimSpace p1 = ''true'') st) x"
    proof (cases "TrimSpace p0 = x")
      case True
      with False assms(1) show ?thesis by (simp add: get_def)
    next
      case False
      with Cons.prems(1) show ?thesis by (simp add: get_def)
    qed
    from Cons.IH[OF this a] show ?thesis .
  qed
qed

lemma followChoice_flag:
  assumes "fmlookup (GlobalStates ast) x = Some True" "x |\<notin>| fmdom (LocalStates ast)"
    and "get st x" and "followChoice ast u st knot c = Inr (Some (t, tk, st'))"
  shows "get st' x"
proof -
  from assms(4) obtain ns where ns: "applyStateChanges st c ast = Some ns"
    and st': "st' = purgeLocals ast ns \<or> st' = ns"
    by (auto simp: followChoice_def split: option.splits if_splits)
  from applyChanges_flag[OF assms(1,3) ns[unfolded applyStateChanges_def]] have "get ns x" .
  moreover from assms(2) have "get (purgeLocals ast ns) x = get ns x"
    by (simp add: purgeLocals_def get_def)
  ultimately show ?thesis using st' by auto
qed

lemma followChoice_target:
  assumes "followChoice ast u st knot c = Inr (Some (t, tk, st'))"
  shows "resolveTarget c u = Some t \<and> fmlookup (Knots ast) t = Some tk \<and>
         conditionHolds (Choice_Condition c) st = Some True"
  using assms by (auto simp: followChoice_def split: option.splits if_splits)

lemma final_edges:
  assumes inv: "Inv ast None (G, [], v)" and n: "fmlookup G k = Some n" and e: "e \<in> set (Edges n)"
  shows "\<exists>knot c t tk st'. fmlookup (Knots ast) (KnotName n) = Some knot \<and> c \<in> set (Choices knot) \<and>
           followChoice ast (KnotName n) (State n) knot c = Inr (Some (t, tk, st')) \<and>
           e = \<lparr>Edge_Text = Choice_Text c, TargetNodeID = generateNodeID t st',
                 Edge_Stitch = Choice_Stitch c\<rparr> \<and>
           generateNodeID t st' |\<in>| fmdom G"
proof -
  from InvD(7)[OF inv n] have "nodeDone ast G n (allChoices ast n)" by (simp add: progress_def)
  then obtain knot where knot: "fmlookup (Knots ast) (KnotName n) = Some knot"
    and ed: "Edges n = expectedEdges ast (KnotName n) (State n) knot (Choices knot)"
    and cd: "\<forall>c \<in> set (Choices knot). choiceDone ast G (KnotName n) (State n) knot c"
    by (auto simp: nodeDone_def allChoices_def)
  from e ed obtain c where c: "c \<in> set (Choices knot)"
    and ec: "e \<in> set (expectedEdge ast (KnotName n) (State n) knot c)"
    by (auto simp: expectedEdges_def)
  from ec have "\<exists>t tk st'. followChoice ast (KnotName n) (State n) knot c = Inr (Some (t, tk, st')) \<and>
      e = \<lparr>Edge_Text = Choice_Text c, TargetNodeID = generateNodeID t st',
                 Edge_Stitch = Choice_Stitch c\<rparr>"
    by (cases "followChoice ast (KnotName n) (State n) knot c")
       (auto simp: expectedEdge_def split: option.splits)
  then obtain t tk st' where fc: "followChoice ast (KnotName n) (State n) knot c = Inr (Some (t, tk, st'))"
    and ee: "e = \<lparr>Edge_Text = Choice_Text c, TargetNodeID = generateNodeID t st',
                 Edge_Stitch = Choice_Stitch c\<rparr>"
    by blast
  from cd c fc have "generateNodeID t st' |\<in>| fmdom G" by (auto simp: choiceDone_def)
  with knot c fc ee show ?thesis by blast
qed

lemma final_choices:
  assumes inv: "Inv ast None (G, [], v)" and n: "fmlookup G k = Some n"
    and knot: "fmlookup (Knots ast) (KnotName n) = Some knot" and c: "c \<in> set (Choices knot)"
  shows "choiceDone ast G (KnotName n) (State n) knot c"
proof -
  from InvD(7)[OF inv n] have "nodeDone ast G n (allChoices ast n)" by (simp add: progress_def)
  with knot c show ?thesis by (auto simp: nodeDone_def allChoices_def)
qed

lemma final_lookup_unique:
  assumes inv: "Inv ast None (G, [], v)" and u: "uniqueIDs ast"
    and r: "reachable ast t st'" and n': "fmlookup G (generateNodeID t st') = Some n'"
  shows "KnotName n' = t \<and> State n' = st'"
proof -
  from InvD(6)[OF inv n'] have "generateNodeID t st' = generateNodeID (KnotName n') (State n')"
    and "reachable ast (KnotName n') (State n')" by (simp_all add: nodeOK_def)
  with u r show ?thesis unfolding uniqueIDs_def by blast
qed

lemma final_complete:
  assumes inv: "Inv ast None (G, [], v)" and u: "uniqueIDs ast" and r: "reachable ast t st"
  shows "\<exists>n. fmlookup G (generateNodeID t st) = Some n \<and> KnotName n = t \<and> State n = st"
  using r
proof (induction rule: reachable.induct)
  case start
  from InvD(2)[OF inv] obtain n where n: "fmlookup G (generateNodeID ''index'' (initialState ast)) = Some n"
    by (auto simp: fmlookup_dom_iff)
  from final_lookup_unique[OF inv u reachable.start n] n show ?case by blast
next
  case (step u0 st0 knot choice t targetKnot st')
  from step.IH obtain n where n: "fmlookup G (generateNodeID u0 st0) = Some n"
    "KnotName n = u0" "State n = st0" by blast
  from final_choices[OF inv n(1)] step.hyps(2,3) n(2,3)
  have "choiceDone ast G u0 st0 knot choice" by auto
  with step.hyps(4) obtain n' where n': "fmlookup G (generateNodeID t st') = Some n'"
    by (auto simp: choiceDone_def fmlookup_dom_iff)
  from reachable.step[OF step.hyps(1-4)] have "reachable ast t st'" .
  from final_lookup_unique[OF inv u this n'] n' show ?case by blast
qed

lemma final_edge_target:
  assumes inv: "Inv ast None (G, [], v)" and u: "uniqueIDs ast"
    and n: "fmlookup G k = Some n" and e: "e \<in> set (Edges n)"
  shows "\<exists>knot c t tk st' n'. fmlookup (Knots ast) (KnotName n) = Some knot \<and> c \<in> set (Choices knot) \<and>
           followChoice ast (KnotName n) (State n) knot c = Inr (Some (t, tk, st')) \<and>
           Edge_Stitch e = Choice_Stitch c \<and> Edge_Text e = Choice_Text c \<and>
           TargetNodeID e = generateNodeID t st' \<and>
           fmlookup G (TargetNodeID e) = Some n' \<and> KnotName n' = t \<and> State n' = st' \<and>
           Node_Scene n = Knot_Scene knot \<and> Node_Scene n' = Knot_Scene tk"
proof -
  from final_edges[OF inv n e] obtain knot c t tk st'
    where knot: "fmlookup (Knots ast) (KnotName n) = Some knot" and c: "c \<in> set (Choices knot)"
      and fc: "followChoice ast (KnotName n) (State n) knot c = Inr (Some (t, tk, st'))"
      and ee: "e = \<lparr>Edge_Text = Choice_Text c, TargetNodeID = generateNodeID t st',
                 Edge_Stitch = Choice_Stitch c\<rparr>"
      and dom: "generateNodeID t st' |\<in>| fmdom G" by blast
  from dom obtain n' where n': "fmlookup G (generateNodeID t st') = Some n'"
    by (auto simp: fmlookup_dom_iff)
  have rn: "reachable ast (KnotName n) (State n)" using InvD(6)[OF inv n] by (simp add: nodeOK_def)
  from reachable.step[OF rn knot c fc] have "reachable ast t st'" .
  from final_lookup_unique[OF inv u this n'] have t: "KnotName n' = t" "State n' = st'" by simp_all
  have sc: "Node_Scene m = Knot_Scene kn"
    if "fmlookup G j = Some m" "fmlookup (Knots ast) (KnotName m) = Some kn" for j m kn
  proof -
    from InvD(6)[OF inv that(1)] that(2) have "createNode (KnotName m) kn (State m) = Inr (m\<lparr>Edges := []\<rparr>)"
      by (auto simp: nodeOK_def)
    from createNode_fields(4)[OF this] show ?thesis by simp
  qed
  from followChoice_Some_lookup[OF fc] t have "fmlookup (Knots ast) (KnotName n') = Some tk" by simp
  from sc[OF n knot] sc[OF n' this] knot c fc ee n' t show ?thesis by auto
qed

section \<open>The claims about the graph\<close>

lemma declaredOnly_lookup:
  "declaredOnly ast \<longleftrightarrow>
     (\<forall>name knot. fmlookup (Knots ast) name = Some knot \<longrightarrow>
        (\<forall>choice \<in> set (Choices knot). \<forall>change \<in> set (StateChanges choice).
           changeName change |\<in>| fmdom (GlobalStates ast) |\<union>| fmdom (LocalStates ast)))"
  unfolding declaredOnly_def by (metis fmlookup_ran'_iff)

lemma changesWellFormed_lookup:
  "changesWellFormed ast \<longleftrightarrow>
     (\<forall>name knot. fmlookup (Knots ast) name = Some knot \<longrightarrow>
        (\<forall>choice \<in> set (Choices knot). \<forall>change \<in> set (StateChanges choice).
           CHR ''='' \<in> set change))"
  unfolding changesWellFormed_def by (metis fmlookup_ran'_iff)

lemma door_declaredOnly: "declaredOnly doorScript"
  by (auto simp: declaredOnly_lookup doorScript_def changeName_def Split.simps trim_eval
      split: if_splits)

lemma door_uniqueIDs: "uniqueIDs doorScript"
  using door_declaredOnly by (rule declaredOnly_uniqueIDs)

lemma door_run:
  "\<exists>g. buildGraph doorScript = Some (Inr g) \<and>
       fmdom (Graph g) = {|''index|has_key=false'', ''index|has_key=true'', ''victory|has_key=true''|} \<and>
       map_option (\<lambda>n. (KnotName n, fmlookup (State n) ''has_key'', map TargetNodeID (Edges n)))
         (fmlookup (Graph g) ''index|has_key=false'')
         = Some (''index'', Some False, [''index|has_key=true'']) \<and>
       map_option (\<lambda>n. (KnotName n, fmlookup (State n) ''has_key'', map TargetNodeID (Edges n)))
         (fmlookup (Graph g) ''index|has_key=true'')
         = Some (''index'', Some True, [''victory|has_key=true'']) \<and>
       map_option (\<lambda>n. (KnotName n, fmlookup (State n) ''has_key'', map TargetNodeID (Edges n)))
         (fmlookup (Graph g) ''victory|has_key=true'')
         = Some (''victory'', Some True, [])"
  by (simp add: doorScript_def eval_simps finsert_commute)

lemma collision_run:
  "\<exists>g. buildGraph collisionScript = Some (Inr g) \<and>
       fmdom (Graph g) = {|''index|'', ''x||y=false''|} \<and>
       map_option KnotName (fmlookup (Graph g) ''index|'') = Some ''index'' \<and>
       map_option KnotName (fmlookup (Graph g) ''x||y=false'') = Some ''x''"
  by (simp add: collisionScript_def eval_simps finsert_commute)

lemma collision_reachable: "reachable collisionScript ''x|'' (fmupd ''y'' False fmempty)"
proof -
  let ?k = "\<lparr>Name = ''index'', Knot_Scene = [], Body = [],
           Choices =
             [\<lparr>Choice_Text = ''Left'', Choice_Condition = [],
               StateChanges = [''|y = false''], TargetKnot = ''x'', Choice_Stitch = []\<rparr>,
              \<lparr>Choice_Text = ''Right'', Choice_Condition = [],
               StateChanges = [''y = false''], TargetKnot = ''x|'', Choice_Stitch = []\<rparr>],
           Knot_IsEnd = False\<rparr>"
  let ?c = "\<lparr>Choice_Text = ''Right'', Choice_Condition = [],
               StateChanges = [''y = false''], TargetKnot = ''x|'', Choice_Stitch = []\<rparr>"
  have i: "initialState collisionScript = fmempty"
    by (simp add: initialState_def collisionScript_def)
  have "reachable collisionScript ''index'' fmempty"
    using reachable.start[of collisionScript] i by simp
  moreover have "fmlookup (Knots collisionScript) ''index'' = Some ?k"
    by (simp add: collisionScript_def)
  moreover have "?c \<in> set (Choices ?k)" by simp
  moreover have "followChoice collisionScript ''index'' fmempty ?k ?c
      = Inr (Some (''x|'', \<lparr>Name = ''x|'', Knot_Scene = [], Body = [], Choices = [], Knot_IsEnd = True\<rparr>,
                   fmupd ''y'' False fmempty))"
    by (simp add: collisionScript_def eval_simps)
  ultimately show ?thesis by (rule reachable.step)
qed

lemma processChoice_noDangling:
  assumes nd: "noDangling G" and vis: "\<And>k. get v k \<Longrightarrow> k |\<in>| fmdom G"
    and res: "processChoice ast cid knot (G, q, v) c = Inr (G', q', v')"
  shows "noDangling G' \<and> (\<forall>k. get v' k \<longrightarrow> k |\<in>| fmdom G')"
proof -
  from res obtain n where n: "fmlookup G cid = Some n"
    by (auto simp: processChoice_def split: option.splits)
  show ?thesis
  proof (cases "followChoice ast (KnotName n) (State n) knot c")
    case (Inl e)
    with res n show ?thesis by (simp add: processChoice_def)
  next
    case (Inr r)
    show ?thesis
    proof (cases r)
      case None
      with Inr res n have "G' = G" "v' = v" by (simp_all add: processChoice_def)
      with nd vis show ?thesis by simp
    next
      case (Some trip)
      obtain t tk st' where trip: "trip = (t, tk, st')" by (cases trip) auto
      note fc = Inr[unfolded Some trip]
      define nn where "nn = \<lparr>KnotName = t, Node_Scene = Knot_Scene tk, State = st',
          Node_Content = the (selectContent (Body tk) st'), Edges = [],
          Node_IsEnd = Knot_IsEnd tk, Node_Stitch = []\<rparr>"
      have cn: "createNode t tk st' = Inr nn" unfolding nn_def by (rule createNode_total)
      define ID where "ID = generateNodeID t st'"
      define edge where "edge = \<lparr>Edge_Text = Choice_Text c, TargetNodeID = ID,
                                 Edge_Stitch = Choice_Stitch c\<rparr>"
      define n1 where "n1 = n\<lparr>Edges := Edges n @ [edge]\<rparr>"
      define G1 where "G1 = fmupd cid n1 G"
      have res': "(G', q', v') =
          (if \<not> get v ID then (fmupd ID nn G1, q @ [ID], fmupd ID True v) else (G1, q, v))"
        using res n fc cn
        by (simp add: processChoice_def Let_def ID_def edge_def n1_def G1_def nn_def split: if_splits)
      have cidG: "cid |\<in>| fmdom G" using n by (rule fmdomI)
      have old: "TargetNodeID e |\<in>| fmdom G" if "fmlookup G j = Some m" "e \<in> set (Edges m)" for j m e
        using nd that by (auto simp: noDangling_def)
      show ?thesis
      proof (cases "get v ID")
        case True
        with res' have eq: "G' = G1" "v' = v" by simp_all
        from vis[OF True] have IDG: "ID |\<in>| fmdom G" .
        have dom: "fmdom G1 = fmdom G" using cidG by (auto simp: G1_def)
        have "noDangling G1"
          unfolding noDangling_def
        proof (intro allI impI ballI)
          fix j m e assume l: "fmlookup G1 j = Some m" and e: "e \<in> set (Edges m)"
          show "TargetNodeID e |\<in>| fmdom G1"
          proof (cases "j = cid")
            case True
            with l have "m = n1" by (simp add: G1_def)
            with e have "e \<in> set (Edges n) \<or> e = edge" by (auto simp: n1_def)
            with old[OF n] IDG dom show ?thesis by (auto simp: edge_def)
          next
            case False
            with l have "fmlookup G j = Some m" by (simp add: G1_def)
            from old[OF this e] dom show ?thesis by simp
          qed
        qed
        with eq vis dom show ?thesis by simp
      next
        case False
        with res' have eq: "G' = fmupd ID nn G1" "v' = fmupd ID True v" by simp_all
        have dom: "fmdom (fmupd ID nn G1) = finsert ID (fmdom G)" using cidG by (auto simp: G1_def)
        have "noDangling (fmupd ID nn G1)"
          unfolding noDangling_def
        proof (intro allI impI ballI)
          fix j m e assume l: "fmlookup (fmupd ID nn G1) j = Some m" and e: "e \<in> set (Edges m)"
          show "TargetNodeID e |\<in>| fmdom (fmupd ID nn G1)"
          proof (cases "j = ID")
            case True
            with l have "m = nn" by simp
            with e show ?thesis by (simp add: nn_def)
          next
            case jID: False
            show ?thesis
            proof (cases "j = cid")
              case True
              with l jID have "m = n1" by (simp add: G1_def)
              with e have "e \<in> set (Edges n) \<or> e = edge" by (auto simp: n1_def)
              with old[OF n] dom show ?thesis by (auto simp: edge_def)
            next
              case False
              with l jID have "fmlookup G j = Some m" by (simp add: G1_def)
              from old[OF this e] dom show ?thesis by simp
            qed
          qed
        qed
        moreover have "\<forall>k. get (fmupd ID True v) k \<longrightarrow> k |\<in>| fmdom (fmupd ID nn G1)"
          using vis dom by (auto simp: get_def)
        ultimately show ?thesis using eq by simp
      qed
    qed
  qed
qed

lemma final_noDangling:
  assumes "buildGraph ast = Some (Inr g)"
  shows "noDangling (Graph g)"
proof -
  from buildGraph_Inr[OF assms] obtain v where inv: "Inv ast None (Graph g, [], v)" by blast
  show ?thesis
    unfolding noDangling_def
  proof (intro allI impI ballI)
    fix k n e assume "fmlookup (Graph g) k = Some n" "e \<in> set (Edges n)"
    from final_edges[OF inv this] show "TargetNodeID e |\<in>| fmdom (Graph g)" by auto
  qed
qed

text \<open>
  C5: no dangling edges. In the graph that \<open>buildGraph\<close> returns, the target identity of
  every edge of every node is a key of the graph; and the property is kept by each pass of
  the loop over the choices: if it holds of the graph, and every visited identity is a key
  of the graph, before a choice is processed, both hold after it.
\<close>

theorem no_dangling_edges:
  "(\<forall>g. buildGraph ast = Some (Inr g) \<longrightarrow> noDangling (Graph g)) \<and>
   (\<forall>cid knot G q v c G' q' v'.
      noDangling G \<longrightarrow> (\<forall>k. get v k \<longrightarrow> k |\<in>| fmdom G) \<longrightarrow>
      processChoice ast cid knot (G, q, v) c = Inr (G', q', v') \<longrightarrow>
      noDangling G' \<and> (\<forall>k. get v' k \<longrightarrow> k |\<in>| fmdom G'))"
  using final_noDangling processChoice_noDangling by blast

theorem no_dangling_edges_witness:
  "\<exists>g n. buildGraph doorScript = Some (Inr g) \<and>
          fmlookup (Graph g) ''index|has_key=true'' = Some n \<and>
          map TargetNodeID (Edges n) = [''victory|has_key=true''] \<and>
          ''victory|has_key=true'' |\<in>| fmdom (Graph g)"
proof -
  from door_run obtain g n where g: "buildGraph doorScript = Some (Inr g)"
    and n: "fmlookup (Graph g) ''index|has_key=true'' = Some n"
      "map TargetNodeID (Edges n) = [''victory|has_key=true'']"
    by auto
  from no_dangling_edges[of doorScript] g have "noDangling (Graph g)" by blast
  moreover from n(2) obtain e where "e \<in> set (Edges n)" "TargetNodeID e = ''victory|has_key=true''"
    by (cases "Edges n") auto
  ultimately have "''victory|has_key=true'' |\<in>| fmdom (Graph g)"
    using n(1) unfolding noDangling_def by metis
  with g n show ?thesis by (intro exI[of _ g] exI[of _ n]) simp
qed

lemma fmlookup_initialState:
  "fmlookup (initialState ast) x =
     (if x |\<in>| fmdom (GlobalStates ast) |\<union>| fmdom (LocalStates ast) then Some False else None)"
  by (auto simp: initialState_def fmlookup_dom_iff)

text \<open>
  The traversal visits what it should. The initial state holds every declared state, as
  false; every node of the graph that \<open>buildGraph\<close> returns is a reachable pair, stored
  under its identity. Whether every reachable pair is a node depends on the identities
  alone: it is so when no two reachable pairs share their identity, as when every state
  change assigns to a declared state (the states of the reachable pairs then have one
  domain).
\<close>

lemma nodes_sound_and_complete:
  assumes "buildGraph ast = Some (Inr g)"
  shows "(\<forall>x. fmlookup (initialState ast) x =
            (if x |\<in>| fmdom (GlobalStates ast) |\<union>| fmdom (LocalStates ast)
             then Some False else None)) \<and>
         (\<forall>k n. fmlookup (Graph g) k = Some n \<longrightarrow>
            reachable ast (KnotName n) (State n) \<and> k = generateNodeID (KnotName n) (State n)) \<and>
         (uniqueIDs ast \<longrightarrow>
            (\<forall>u st. reachable ast u st \<longrightarrow>
               (\<exists>n. fmlookup (Graph g) (generateNodeID u st) = Some n \<and>
                    KnotName n = u \<and> State n = st))) \<and>
         (declaredOnly ast \<longrightarrow> uniqueIDs ast)"
proof -
  from buildGraph_Inr[OF assms] obtain v where inv: "Inv ast None (Graph g, [], v)" by blast
  have "reachable ast (KnotName n) (State n) \<and> k = generateNodeID (KnotName n) (State n)"
    if "fmlookup (Graph g) k = Some n" for k n
    using InvD(6)[OF inv that] by (simp add: nodeOK_def)
  moreover have "\<exists>n. fmlookup (Graph g) (generateNodeID u st) = Some n \<and>
                    KnotName n = u \<and> State n = st"
    if "uniqueIDs ast" "reachable ast u st" for u st
    using final_complete[OF inv that] .
  ultimately show ?thesis
    using fmlookup_initialState declaredOnly_uniqueIDs by blast
qed

lemma nodes_sound_and_complete_example:
  "declaredOnly doorScript \<and> uniqueIDs doorScript \<and>
   (\<exists>g n m. buildGraph doorScript = Some (Inr g) \<and>
      fmlookup (Graph g) ''victory|has_key=true'' = Some n \<and>
      reachable doorScript (KnotName n) (State n) \<and> KnotName n = ''victory'' \<and>
      fmlookup (Graph g) (generateNodeID ''index'' (initialState doorScript)) = Some m \<and>
      KnotName m = ''index'' \<and> State m = initialState doorScript)"
proof -
  from door_run obtain g n where g: "buildGraph doorScript = Some (Inr g)"
    and n: "fmlookup (Graph g) ''victory|has_key=true'' = Some n" "KnotName n = ''victory''"
    by auto
  note t = nodes_sound_and_complete[OF g]
  from t n(1) have r: "reachable doorScript (KnotName n) (State n)" by blast
  from t door_uniqueIDs reachable.start[of doorScript]
  obtain m where m: "fmlookup (Graph g) (generateNodeID ''index'' (initialState doorScript)) = Some m"
    "KnotName m = ''index''" "State m = initialState doorScript" by blast
  have "\<exists>g n m. buildGraph doorScript = Some (Inr g) \<and>
      fmlookup (Graph g) ''victory|has_key=true'' = Some n \<and>
      reachable doorScript (KnotName n) (State n) \<and> KnotName n = ''victory'' \<and>
      fmlookup (Graph g) (generateNodeID ''index'' (initialState doorScript)) = Some m \<and>
      KnotName m = ''index'' \<and> State m = initialState doorScript"
    using g n r m by (intro exI[of _ g] exI[of _ n] exI[of _ m]) simp
  with door_declaredOnly door_uniqueIDs show ?thesis by (intro conjI)
qed

lemma collision_reachable_x: "reachable collisionScript ''x'' (fmupd ''|y'' False fmempty)"
proof -
  let ?c = "\<lparr>Choice_Text = ''Left'', Choice_Condition = [],
               StateChanges = [''|y = false''], TargetKnot = ''x'', Choice_Stitch = []\<rparr>"
  let ?k = "\<lparr>Name = ''index'', Knot_Scene = [], Body = [],
           Choices =
             [?c,
              \<lparr>Choice_Text = ''Right'', Choice_Condition = [],
               StateChanges = [''y = false''], TargetKnot = ''x|'', Choice_Stitch = []\<rparr>],
           Knot_IsEnd = False\<rparr>"
  have i: "initialState collisionScript = fmempty"
    by (simp add: initialState_def collisionScript_def)
  have "reachable collisionScript ''index'' fmempty"
    using reachable.start[of collisionScript] i by simp
  moreover have "fmlookup (Knots collisionScript) ''index'' = Some ?k"
    by (simp add: collisionScript_def)
  moreover have "?c \<in> set (Choices ?k)" by simp
  moreover have "followChoice collisionScript ''index'' fmempty ?k ?c
      = Inr (Some (''x'', \<lparr>Name = ''x'', Knot_Scene = [], Body = [], Choices = [], Knot_IsEnd = True\<rparr>,
                   fmupd ''|y'' False fmempty))"
    by (simp add: collisionScript_def eval_simps)
  ultimately show ?thesis by (rule reachable.step)
qed

text \<open>
  C1: a reachable pair that is not a node. The claim is what the identity is for (the
  comment of \<open>generateNodeID\<close>: a unique identity for a node), and the code misses it
  where two reachable pairs have one identity. In \<open>collisionScript\<close> the first choice
  of \<open>index\<close> leads to the knot \<open>x\<close> with \<open>|y\<close> false, the second to the knot
  \<open>x|\<close> with \<open>y\<close> false; both have the identity \<open>x||y=false\<close>, the second
  finds it visited, and the graph has two nodes, of the knots \<open>index\<close> and \<open>x\<close>:
  the pair of the knot \<open>x|\<close> is reachable and is no node. (The defect is that of C7.)
\<close>

theorem collision_loses_a_reachable_pair:
  "reachable collisionScript ''x'' (fmupd ''|y'' False fmempty) \<and>
   reachable collisionScript ''x|'' (fmupd ''y'' False fmempty) \<and>
   generateNodeID ''x'' (fmupd ''|y'' False fmempty) = ''x||y=false'' \<and>
   generateNodeID ''x|'' (fmupd ''y'' False fmempty) = ''x||y=false'' \<and>
   nodeIDs collisionScript = {|''index|'', ''x||y=false''|} \<and>
   unitOf collisionScript ''index|'' = Some ''index'' \<and>
   unitOf collisionScript ''x||y=false'' = Some ''x''"
proof -
  from collision_run obtain g where "buildGraph collisionScript = Some (Inr g)"
    "fmdom (Graph g) = {|''index|'', ''x||y=false''|}"
    "map_option KnotName (fmlookup (Graph g) ''index|'') = Some ''index''"
    "map_option KnotName (fmlookup (Graph g) ''x||y=false'') = Some ''x''"
    by blast
  then have "nodeIDs collisionScript = {|''index|'', ''x||y=false''|}"
    "unitOf collisionScript ''index|'' = Some ''index''"
    "unitOf collisionScript ''x||y=false'' = Some ''x''"
    by (simp_all add: nodeIDs_def unitOf_def nodeAt_def)
  moreover have "generateNodeID ''x'' (fmupd ''|y'' False fmempty) = ''x||y=false''"
    "generateNodeID ''x|'' (fmupd ''y'' False fmempty) = ''x||y=false''"
    by (simp_all add: id_eval)
  ultimately show ?thesis using collision_reachable collision_reachable_x by (intro conjI)
qed

lemma hall_run:
  "\<exists>g. buildGraph hallScript = Some (Inr g) \<and>
       map_option (\<lambda>n. (Node_Scene n, fmlookup (State n) ''done'', map TargetNodeID (Edges n)))
         (fmlookup (Graph g) ''index|done=false,key=false'')
         = Some (''bedroom'', Some False, [''hall|done=true,key=false'']) \<and>
       map_option (\<lambda>n. (Node_Scene n, fmlookup (State n) ''done'', map TargetNodeID (Edges n)))
         (fmlookup (Graph g) ''hall|done=true,key=false'')
         = Some (''corridor'', Some True, [''index|done=true,key=false''])"
  by (simp add: hallScript_def eval_simps)

lemma stitch_run:
  "\<exists>g. buildGraph stitchScript = Some (Inr g) \<and>
       map_option (\<lambda>n. (KnotName n, fmlookup (State n) ''l'', map TargetNodeID (Edges n),
                          map Edge_Stitch (Edges n)))
         (fmlookup (Graph g) ''index|l=true'')
         = Some (''index'', Some True, [''index|l=true'', ''intro|l=false''], [[], ''.intro'']) \<and>
       map_option (\<lambda>n. (KnotName n, fmlookup (State n) ''l'')) (fmlookup (Graph g) ''intro|l=false'')
         = Some (''intro'', Some False)"
  by (simp add: stitchScript_def eval_simps)

lemma flagCollision_run:
  "\<exists>g. buildGraph flagCollisionScript = Some (Inr g) \<and>
       map_option (\<lambda>n. (KnotName n, fmlookup (State n) ''v'', map TargetNodeID (Edges n)))
         (fmlookup (Graph g) ''index|v=true'')
         = Some (''index'', Some True,
                 [''a|v=true,x|v=true'', ''index|v=true'', ''a|v=false,x|v=true'']) \<and>
       map_option (\<lambda>n. (KnotName n, fmlookup (State n) ''v'')) (fmlookup (Graph g) ''a|v=false,x|v=true'')
         = Some (''a'', Some False)"
  by (simp add: flagCollisionScript_def eval_simps)

lemma sceneCollision_run:
  "\<exists>g. buildGraph sceneCollisionScript = Some (Inr g) \<and>
       map_option (\<lambda>n. (KnotName n, Node_Scene n, map TargetNodeID (Edges n)))
         (fmlookup (Graph g) ''index|l=true'')
         = Some (''index'', ''A'', [''y|l=false'', ''index|l=true'', ''x|b|a=false,l=true'']) \<and>
       map_option (\<lambda>n. (KnotName n, Node_Scene n, fmlookup (State n) ''l''))
         (fmlookup (Graph g) ''x|b|a=false,l=true'')
         = Some (''x|b'', ''B'', Some True)"
  by (simp add: sceneCollisionScript_def eval_simps)

lemma panic_run: "buildGraph panicScript = Some (Inl IndexOutOfRange)"
  by (simp add: panicScript_def eval_simps)

lemma hall_declaredOnly: "declaredOnly hallScript"
  by (auto simp: declaredOnly_lookup hallScript_def changeName_def Split.simps trim_eval
      split: if_splits)

lemma stitch_declaredOnly: "declaredOnly stitchScript"
  by (auto simp: declaredOnly_lookup stitchScript_def changeName_def Split.simps trim_eval
      split: if_splits)

lemma applyChanges_append:
  "applyChanges st (xs @ ys) ast =
     (case applyChanges st xs ast of None \<Rightarrow> None | Some s \<Rightarrow> applyChanges s ys ast)"
  by (induction xs arbitrary: st) (auto simp: Let_def split: option.splits)

lemma applyChanges_skip:
  assumes "CHR ''='' \<in> set change" "fmlookup (GlobalStates ast) (changeName change) = Some True"
    and "TrimSpace (Split change ''='' ! 1) \<noteq> ''true''"
  shows "applyChanges st (change # rest) ast = applyChanges st rest ast"
proof -
  from assms(1) have "Index change ''='' \<noteq> None" by (simp add: Index_single_None_iff)
  then have "2 \<le> length (Split change ''='')" by (simp add: Split_length2_iff)
  then have "slice_at (Split change ''='') 0 = Some (hd (Split change ''=''))"
    "slice_at (Split change ''='') (Suc 0) = Some (Split change ''='' ! 1)"
    by (auto simp: slice_at_def hd_conv_nth)
  with assms(2,3) show ?thesis by (simp add: changeName_def Let_def)
qed

text \<open>
  The transition keeps the flags. For a flag state \<open>x\<close> that is not also a local state:
  \<open>applyStateChanges\<close> keeps \<open>x\<close> true once it is true; a state change that assigns
  a value other than \<open>true\<close> to \<open>x\<close> is skipped wherever it stands in the list; and
  where the identities of the reachable pairs are distinct, \<open>x\<close> is true in the node an
  edge of the graph leads to whenever it is true in the node the edge leaves.
\<close>

lemma flag_kept:
  assumes "fmlookup (GlobalStates ast) x = Some True" and "x |\<notin>| fmdom (LocalStates ast)"
  shows "(\<forall>st choice st'. get st x \<longrightarrow> applyStateChanges st choice ast = Some st' \<longrightarrow> get st' x) \<and>
         (\<forall>st pre change post.
            CHR ''='' \<in> set change \<longrightarrow> changeName change = x \<longrightarrow>
            TrimSpace (Split change ''='' ! 1) \<noteq> ''true'' \<longrightarrow>
            applyChanges st (pre @ change # post) ast = applyChanges st (pre @ post) ast) \<and>
         (\<forall>g k n e. buildGraph ast = Some (Inr g) \<longrightarrow> uniqueIDs ast \<longrightarrow>
            fmlookup (Graph g) k = Some n \<longrightarrow> e \<in> set (Edges n) \<longrightarrow> get (State n) x \<longrightarrow>
            (\<exists>n'. fmlookup (Graph g) (TargetNodeID e) = Some n' \<and> get (State n') x))"
proof (intro conjI allI impI)
  fix st choice st'
  assume "get st x" "applyStateChanges st choice ast = Some st'"
  then show "get st' x"
    using applyChanges_flag[OF assms(1)] by (simp add: applyStateChanges_def)
next
  fix st pre change post
  assume "CHR ''='' \<in> set change" "changeName change = x"
    "TrimSpace (Split change ''='' ! 1) \<noteq> ''true''"
  with assms(1) have "applyChanges s (change # post) ast = applyChanges s post ast" for s
    by (intro applyChanges_skip) simp_all
  then show "applyChanges st (pre @ change # post) ast = applyChanges st (pre @ post) ast"
    by (simp only: applyChanges_append)
next
  fix g k n e
  assume g: "buildGraph ast = Some (Inr g)" and u: "uniqueIDs ast"
    and n: "fmlookup (Graph g) k = Some n" and e: "e \<in> set (Edges n)" and x: "get (State n) x"
  from buildGraph_Inr[OF g] obtain v where inv: "Inv ast None (Graph g, [], v)" by blast
  from final_edge_target[OF inv u n e] obtain knot c t tk st' n'
    where fc: "followChoice ast (KnotName n) (State n) knot c = Inr (Some (t, tk, st'))"
      and n': "fmlookup (Graph g) (TargetNodeID e) = Some n'" "State n' = st'" by blast
  from followChoice_flag[OF assms x fc] n'
  show "\<exists>n'. fmlookup (Graph g) (TargetNodeID e) = Some n' \<and> get (State n') x" by auto
qed

lemma flag_kept_example:
  "fmlookup (GlobalStates hallScript) ''done'' = Some True \<and>
   ''done'' |\<notin>| fmdom (LocalStates hallScript) \<and> uniqueIDs hallScript \<and>
   (\<exists>g n e n'. buildGraph hallScript = Some (Inr g) \<and>
      fmlookup (Graph g) ''hall|done=true,key=false'' = Some n \<and> e \<in> set (Edges n) \<and>
      get (State n) ''done'' \<and>
      fmlookup (Graph g) (TargetNodeID e) = Some n' \<and> get (State n') ''done'')"
proof -
  have f: "fmlookup (GlobalStates hallScript) ''done'' = Some True"
    and l: "''done'' |\<notin>| fmdom (LocalStates hallScript)"
    by (simp_all add: hallScript_def)
  have u: "uniqueIDs hallScript" using hall_declaredOnly by (rule declaredOnly_uniqueIDs)
  from hall_run obtain g n where g: "buildGraph hallScript = Some (Inr g)"
    and n: "fmlookup (Graph g) ''hall|done=true,key=false'' = Some n"
      "fmlookup (State n) ''done'' = Some True"
      "map TargetNodeID (Edges n) = [''index|done=true,key=false'']"
    by auto
  from n(3) obtain e where e: "e \<in> set (Edges n)" by (cases "Edges n") auto
  from n(2) have x: "get (State n) ''done''" by (simp add: get_def)
  from flag_kept[OF f l] g u n(1) e x
  obtain n' where "fmlookup (Graph g) (TargetNodeID e) = Some n'" "get (State n') ''done''"
    by metis
  with g n(1) e x have "\<exists>g n e n'. buildGraph hallScript = Some (Inr g) \<and>
      fmlookup (Graph g) ''hall|done=true,key=false'' = Some n \<and> e \<in> set (Edges n) \<and>
      get (State n) ''done'' \<and>
      fmlookup (Graph g) (TargetNodeID e) = Some n' \<and> get (State n') ''done''"
    by (intro exI[of _ g] exI[of _ n] exI[of _ e] exI[of _ n']) simp
  with f l u show ?thesis by (intro conjI)
qed

text \<open>
  C3: an edge from a node where a flag is true to a node where it is false. The transition
  is monotone (the test \<open>TestFlagState\<close> checks it), but an edge holds the identity of
  its target, and the identity does not tell two reachable pairs apart (C7). In
  \<open>flagCollisionScript\<close> the flag \<open>v\<close> is true in the node \<open>index|v=true\<close>, whose
  third edge leads to the knot \<open>a|v=false,x\<close> with \<open>v\<close> true; the identity of that
  pair, \<open>a|v=false,x|v=true\<close>, is the identity of the knot \<open>a\<close> with \<open>v\<close> false
  and \<open>x|v\<close> true, a node made before, and that is the node the graph holds for the
  edge.
\<close>

theorem collision_breaks_flag_monotonicity:
  "fmlookup (GlobalStates flagCollisionScript) ''v'' = Some True \<and>
   LocalStates flagCollisionScript = fmempty \<and>
   valueOf flagCollisionScript ''index|v=true'' ''v'' = Some True \<and>
   targetsOf flagCollisionScript ''index|v=true''
     = [''a|v=true,x|v=true'', ''index|v=true'', ''a|v=false,x|v=true''] \<and>
   unitOf flagCollisionScript ''a|v=false,x|v=true'' = Some ''a'' \<and>
   valueOf flagCollisionScript ''a|v=false,x|v=true'' ''v'' = Some False \<and>
   generateNodeID ''a'' (fmupd ''x|v'' True (fmupd ''v'' False fmempty)) = ''a|v=false,x|v=true'' \<and>
   generateNodeID ''a|v=false,x'' (fmupd ''v'' True fmempty) = ''a|v=false,x|v=true''"
proof -
  from flagCollision_run obtain g where "buildGraph flagCollisionScript = Some (Inr g)"
    "map_option (\<lambda>n. (KnotName n, fmlookup (State n) ''v'', map TargetNodeID (Edges n)))
         (fmlookup (Graph g) ''index|v=true'')
         = Some (''index'', Some True,
                 [''a|v=true,x|v=true'', ''index|v=true'', ''a|v=false,x|v=true''])"
    "map_option (\<lambda>n. (KnotName n, fmlookup (State n) ''v'')) (fmlookup (Graph g) ''a|v=false,x|v=true'')
         = Some (''a'', Some False)"
    by auto
  then have "valueOf flagCollisionScript ''index|v=true'' ''v'' = Some True"
    "targetsOf flagCollisionScript ''index|v=true''
     = [''a|v=true,x|v=true'', ''index|v=true'', ''a|v=false,x|v=true'']"
    "unitOf flagCollisionScript ''a|v=false,x|v=true'' = Some ''a''"
    "valueOf flagCollisionScript ''a|v=false,x|v=true'' ''v'' = Some False"
    by (auto simp: valueOf_def targetsOf_def unitOf_def nodeAt_def)
  moreover have "fmlookup (GlobalStates flagCollisionScript) ''v'' = Some True"
    "LocalStates flagCollisionScript = fmempty"
    by (simp_all add: flagCollisionScript_def)
  moreover have
    "generateNodeID ''a'' (fmupd ''x|v'' True (fmupd ''v'' False fmempty)) = ''a|v=false,x|v=true''"
    "generateNodeID ''a|v=false,x'' (fmupd ''v'' True fmempty) = ''a|v=false,x|v=true''"
    by (simp_all add: id_eval)
  ultimately show ?thesis by (intro conjI)
qed

text \<open>
  The purge is applied. Where the identities of the reachable pairs are distinct, every
  edge of the graph that \<open>buildGraph\<close> returns leads to a node of the graph, and when
  the scene of the knot of that node differs from the scene of the knot of the node the
  edge leaves, every local state is false in it.
\<close>

lemma locals_purged:
  assumes "buildGraph ast = Some (Inr g)" and "uniqueIDs ast"
    and "fmlookup (Graph g) k = Some n" and "e \<in> set (Edges n)"
  shows "\<exists>n' sk tk. fmlookup (Graph g) (TargetNodeID e) = Some n' \<and>
           fmlookup (Knots ast) (KnotName n) = Some sk \<and>
           fmlookup (Knots ast) (KnotName n') = Some tk \<and>
           Node_Scene n = Knot_Scene sk \<and> Node_Scene n' = Knot_Scene tk \<and>
           (Knot_Scene sk \<noteq> Knot_Scene tk \<longrightarrow>
              (\<forall>l. l |\<in>| fmdom (LocalStates ast) \<longrightarrow> fmlookup (State n') l = Some False))"
proof -
  from buildGraph_Inr[OF assms(1)] obtain v where inv: "Inv ast None (Graph g, [], v)" by blast
  from final_edge_target[OF inv assms(2,3,4)] obtain knot c t tk st' n'
    where knot: "fmlookup (Knots ast) (KnotName n) = Some knot"
      and fc: "followChoice ast (KnotName n) (State n) knot c = Inr (Some (t, tk, st'))"
      and n': "fmlookup (Graph g) (TargetNodeID e) = Some n'" "KnotName n' = t" "State n' = st'"
      and sc: "Node_Scene n = Knot_Scene knot" "Node_Scene n' = Knot_Scene tk"
    by blast
  from followChoice_Some_lookup[OF fc] n'(2) have tk: "fmlookup (Knots ast) (KnotName n') = Some tk"
    by simp
  have "fmlookup (State n') l = Some False"
    if "Knot_Scene knot \<noteq> Knot_Scene tk" "l |\<in>| fmdom (LocalStates ast)" for l
    using followChoice_purge[OF fc that] n'(3) by simp
  with knot tk n'(1) sc show ?thesis by blast
qed

lemma locals_purged_example:
  "uniqueIDs hallScript \<and>
   (\<exists>g n e n'. buildGraph hallScript = Some (Inr g) \<and>
      fmlookup (Graph g) ''index|done=false,key=false'' = Some n \<and> e \<in> set (Edges n) \<and>
      fmlookup (Graph g) (TargetNodeID e) = Some n' \<and>
      Node_Scene n = ''bedroom'' \<and> Node_Scene n' = ''corridor'' \<and>
      fmlookup (State n') ''key'' = Some False)"
proof -
  have u: "uniqueIDs hallScript" using hall_declaredOnly by (rule declaredOnly_uniqueIDs)
  from hall_run obtain g n m where g: "buildGraph hallScript = Some (Inr g)"
    and n: "fmlookup (Graph g) ''index|done=false,key=false'' = Some n"
      "Node_Scene n = ''bedroom''"
      "map TargetNodeID (Edges n) = [''hall|done=true,key=false'']"
    and m: "fmlookup (Graph g) ''hall|done=true,key=false'' = Some m"
      "Node_Scene m = ''corridor''"
    by auto
  from n(3) obtain e where e: "e \<in> set (Edges n)" "TargetNodeID e = ''hall|done=true,key=false''"
    by (cases "Edges n") auto
  from locals_purged[OF g u n(1) e(1)] obtain n' and sk tk :: Knot
    where n': "fmlookup (Graph g) (TargetNodeID e) = Some n'"
      and sc: "Node_Scene n = Knot_Scene sk" "Node_Scene n' = Knot_Scene tk"
      and p: "Knot_Scene sk \<noteq> Knot_Scene tk \<longrightarrow>
              (\<forall>l. l |\<in>| fmdom (LocalStates hallScript) \<longrightarrow> fmlookup (State n') l = Some False)"
    by blast
  from n' e(2) m(1) have nm: "n' = m" by simp
  with sc n(2) m(2) have "Knot_Scene sk = ''bedroom''" "Knot_Scene tk = ''corridor''"
    by simp_all
  then have "Knot_Scene sk \<noteq> Knot_Scene tk" by simp
  moreover have "''key'' |\<in>| fmdom (LocalStates hallScript)" by (simp add: hallScript_def)
  ultimately have "fmlookup (State n') ''key'' = Some False" using p by blast
  with g n(1,2) e(1) n' nm m(2)
  have "\<exists>g n e n'. buildGraph hallScript = Some (Inr g) \<and>
      fmlookup (Graph g) ''index|done=false,key=false'' = Some n \<and> e \<in> set (Edges n) \<and>
      fmlookup (Graph g) (TargetNodeID e) = Some n' \<and>
      Node_Scene n = ''bedroom'' \<and> Node_Scene n' = ''corridor'' \<and>
      fmlookup (State n') ''key'' = Some False"
    by (intro exI[of _ g] exI[of _ n] exI[of _ e] exI[of _ n']) simp
  with u show ?thesis by (intro conjI)
qed

text \<open>
  C4: an edge into another scene, to a node where a local state is true. The purge of lines
  76 to 80 is applied to the successor state (the test \<open>TestLocalState\<close> checks it), but
  the edge holds the identity of its target, and the identity does not tell two reachable
  pairs apart (C7). In \<open>sceneCollisionScript\<close> the third edge of the node
  \<open>index|l=true\<close>, of scene \<open>A\<close>, leads to the knot \<open>x\<close>, of scene \<open>A\<close>, with
  \<open>b|a\<close> false and \<open>l\<close> true; the identity of that pair, \<open>x|b|a=false,l=true\<close>,
  is the identity of the knot \<open>x|b\<close>, of scene \<open>B\<close>, with \<open>a\<close> false and \<open>l\<close>
  true, a node made before from the knot \<open>y\<close> of scene \<open>B\<close>. So the graph has an
  edge from scene \<open>A\<close> to a node of scene \<open>B\<close> in which the local state \<open>l\<close> is
  true.
\<close>

theorem collision_breaks_scene_purge:
  "fmlookup (LocalStates sceneCollisionScript) ''l'' = Some True \<and>
   sceneOf sceneCollisionScript ''index|l=true'' = Some ''A'' \<and>
   targetsOf sceneCollisionScript ''index|l=true''
     = [''y|l=false'', ''index|l=true'', ''x|b|a=false,l=true''] \<and>
   sceneOf sceneCollisionScript ''x|b|a=false,l=true'' = Some ''B'' \<and>
   unitOf sceneCollisionScript ''x|b|a=false,l=true'' = Some ''x|b'' \<and>
   valueOf sceneCollisionScript ''x|b|a=false,l=true'' ''l'' = Some True \<and>
   generateNodeID ''x|b'' (fmupd ''a'' False (fmupd ''l'' True fmempty)) = ''x|b|a=false,l=true'' \<and>
   generateNodeID ''x'' (fmupd ''b|a'' False (fmupd ''l'' True fmempty)) = ''x|b|a=false,l=true''"
proof -
  from sceneCollision_run obtain g where "buildGraph sceneCollisionScript = Some (Inr g)"
    "map_option (\<lambda>n. (KnotName n, Node_Scene n, map TargetNodeID (Edges n)))
         (fmlookup (Graph g) ''index|l=true'')
         = Some (''index'', ''A'', [''y|l=false'', ''index|l=true'', ''x|b|a=false,l=true''])"
    "map_option (\<lambda>n. (KnotName n, Node_Scene n, fmlookup (State n) ''l''))
         (fmlookup (Graph g) ''x|b|a=false,l=true'')
         = Some (''x|b'', ''B'', Some True)"
    by auto
  then have "sceneOf sceneCollisionScript ''index|l=true'' = Some ''A''"
    "targetsOf sceneCollisionScript ''index|l=true''
     = [''y|l=false'', ''index|l=true'', ''x|b|a=false,l=true'']"
    "sceneOf sceneCollisionScript ''x|b|a=false,l=true'' = Some ''B''"
    "unitOf sceneCollisionScript ''x|b|a=false,l=true'' = Some ''x|b''"
    "valueOf sceneCollisionScript ''x|b|a=false,l=true'' ''l'' = Some True"
    by (auto simp: valueOf_def targetsOf_def sceneOf_def unitOf_def nodeAt_def)
  moreover have "fmlookup (LocalStates sceneCollisionScript) ''l'' = Some True"
    by (simp add: sceneCollisionScript_def)
  moreover have
    "generateNodeID ''x|b'' (fmupd ''a'' False (fmupd ''l'' True fmempty)) = ''x|b|a=false,l=true''"
    "generateNodeID ''x'' (fmupd ''b|a'' False (fmupd ''l'' True fmempty)) = ''x|b|a=false,l=true''"
    by (simp_all add: id_eval)
  ultimately show ?thesis by (intro conjI)
qed

lemma followChoice_stitch:
  assumes st: "Choice_Stitch c \<noteq> []"
    and cond: "conditionHolds (Choice_Condition c) s = Some True"
    and go: "TrimPrefix (Choice_Stitch c) ''.'' \<noteq> [] \<or> StateChanges c \<noteq> []"
    and ok: "\<forall>e. followChoice ast u s sk c \<noteq> Inl e"
  shows "\<exists>tk ns. fmlookup (Knots ast)
                   (if TrimPrefix (Choice_Stitch c) ''.'' = [] then u
                    else TrimPrefix (Choice_Stitch c) ''.'') = Some tk \<and>
           applyStateChanges s c ast = Some ns \<and>
           followChoice ast u s sk c =
             Inr (Some (if TrimPrefix (Choice_Stitch c) ''.'' = [] then u
                        else TrimPrefix (Choice_Stitch c) ''.'', tk,
                        if Knot_Scene sk \<noteq> Knot_Scene tk then purgeLocals ast ns else ns))"
proof -
  let ?t = "if TrimPrefix (Choice_Stitch c) ''.'' = [] then u
            else TrimPrefix (Choice_Stitch c) ''.''"
  from st go have rt: "resolveTarget c u = Some ?t"
    by (auto simp: resolveTarget_def Let_def)
  from ok cond obtain ns where ns: "applyStateChanges s c ast = Some ns"
    by (cases "applyStateChanges s c ast") (auto simp: followChoice_def)
  from ok cond ns rt obtain tk where tk: "fmlookup (Knots ast) ?t = Some tk"
    by (cases "fmlookup (Knots ast) ?t") (auto simp: followChoice_def)
  from cond ns rt tk
  have "followChoice ast u s sk c =
      Inr (Some (?t, tk, if Knot_Scene sk \<noteq> Knot_Scene tk then purgeLocals ast ns else ns))"
    by (simp add: followChoice_def)
  with tk ns show ?thesis by blast
qed

lemma expectedEdges_member:
  assumes "c \<in> set cs" and "followChoice ast u s sk c = Inr (Some (t, tk, st'))"
  shows "\<lparr>Edge_Text = Choice_Text c, TargetNodeID = generateNodeID t st',
          Edge_Stitch = Choice_Stitch c\<rparr> \<in> set (expectedEdges ast u s sk cs)"
  using assms by (auto simp: expectedEdges_def expectedEdge_def intro!: bexI[of _ c])

text \<open>
  C2, as the code has it. In the graph that \<open>buildGraph\<close> returns, a node has, for every
  choice of its knot that carries a stitch and whose condition holds in the state of the
  node, an edge with the text and the stitch of the choice. The edge leads to the identity
  of the knot named by the stitch without its leading dot, a knot of the script (to the
  knot of the node itself when that name is empty and the choice changes the state; a
  choice with an empty name and no state change gets no edge), with the state that
  \<open>applyStateChanges\<close> gives, purged as for any edge: when the scene of that knot
  differs from the scene of the knot of the node, every local state is false in it. That
  identity is a key of the graph, and the node under it is that knot with that state when
  no two reachable pairs share their identity. Every edge that carries a stitch is the edge
  of such a choice.
\<close>

theorem stitch_edge:
  assumes "buildGraph ast = Some (Inr g)" and "fmlookup (Graph g) k = Some n"
  shows "\<exists>sk. fmlookup (Knots ast) (KnotName n) = Some sk \<and>
     (\<forall>c \<in> set (Choices sk).
        Choice_Stitch c \<noteq> [] \<longrightarrow>
        conditionHolds (Choice_Condition c) (State n) = Some True \<longrightarrow>
        TrimPrefix (Choice_Stitch c) ''.'' \<noteq> [] \<or> StateChanges c \<noteq> [] \<longrightarrow>
        (\<exists>t tk ns st'.
           \<lparr>Edge_Text = Choice_Text c, TargetNodeID = generateNodeID t st',
            Edge_Stitch = Choice_Stitch c\<rparr> \<in> set (Edges n) \<and>
           t = (if TrimPrefix (Choice_Stitch c) ''.'' = [] then KnotName n
                else TrimPrefix (Choice_Stitch c) ''.'') \<and>
           fmlookup (Knots ast) t = Some tk \<and>
           applyStateChanges (State n) c ast = Some ns \<and>
           st' = (if Knot_Scene sk \<noteq> Knot_Scene tk then purgeLocals ast ns else ns) \<and>
           (Knot_Scene sk \<noteq> Knot_Scene tk \<longrightarrow>
              (\<forall>l. l |\<in>| fmdom (LocalStates ast) \<longrightarrow> fmlookup st' l = Some False)) \<and>
           reachable ast t st' \<and> generateNodeID t st' |\<in>| fmdom (Graph g) \<and>
           (uniqueIDs ast \<longrightarrow>
              (\<exists>n'. fmlookup (Graph g) (generateNodeID t st') = Some n' \<and>
                    KnotName n' = t \<and> State n' = st')))) \<and>
     (\<forall>e \<in> set (Edges n).
        Edge_Stitch e \<noteq> [] \<longrightarrow>
        (\<exists>c \<in> set (Choices sk). \<exists>tk ns.
           Choice_Stitch c = Edge_Stitch e \<and> Choice_Text c = Edge_Text e \<and>
           conditionHolds (Choice_Condition c) (State n) = Some True \<and>
           (TrimPrefix (Choice_Stitch c) ''.'' \<noteq> [] \<or> StateChanges c \<noteq> []) \<and>
           fmlookup (Knots ast)
             (if TrimPrefix (Choice_Stitch c) ''.'' = [] then KnotName n
              else TrimPrefix (Choice_Stitch c) ''.'') = Some tk \<and>
           applyStateChanges (State n) c ast = Some ns \<and>
           TargetNodeID e =
             generateNodeID
               (if TrimPrefix (Choice_Stitch c) ''.'' = [] then KnotName n
                else TrimPrefix (Choice_Stitch c) ''.'')
               (if Knot_Scene sk \<noteq> Knot_Scene tk then purgeLocals ast ns else ns)))"
proof -
  from buildGraph_Inr[OF assms(1)] obtain v where inv: "Inv ast None (Graph g, [], v)" by blast
  from InvD(7)[OF inv assms(2)] have "nodeDone ast (Graph g) n (allChoices ast n)"
    by (simp add: progress_def)
  then obtain sk where sk: "fmlookup (Knots ast) (KnotName n) = Some sk"
    and ed: "Edges n = expectedEdges ast (KnotName n) (State n) sk (Choices sk)"
    and cd: "\<forall>c \<in> set (Choices sk). choiceDone ast (Graph g) (KnotName n) (State n) sk c"
    by (auto simp: nodeDone_def allChoices_def)
  have rn: "reachable ast (KnotName n) (State n)"
    using InvD(6)[OF inv assms(2)] by (simp add: nodeOK_def)
  have A: "\<exists>t tk ns st'.
           \<lparr>Edge_Text = Choice_Text c, TargetNodeID = generateNodeID t st',
            Edge_Stitch = Choice_Stitch c\<rparr> \<in> set (Edges n) \<and>
           t = (if TrimPrefix (Choice_Stitch c) ''.'' = [] then KnotName n
                else TrimPrefix (Choice_Stitch c) ''.'') \<and>
           fmlookup (Knots ast) t = Some tk \<and>
           applyStateChanges (State n) c ast = Some ns \<and>
           st' = (if Knot_Scene sk \<noteq> Knot_Scene tk then purgeLocals ast ns else ns) \<and>
           (Knot_Scene sk \<noteq> Knot_Scene tk \<longrightarrow>
              (\<forall>l. l |\<in>| fmdom (LocalStates ast) \<longrightarrow> fmlookup st' l = Some False)) \<and>
           reachable ast t st' \<and> generateNodeID t st' |\<in>| fmdom (Graph g) \<and>
           (uniqueIDs ast \<longrightarrow>
              (\<exists>n'. fmlookup (Graph g) (generateNodeID t st') = Some n' \<and>
                    KnotName n' = t \<and> State n' = st'))"
    if c: "c \<in> set (Choices sk)" and st: "Choice_Stitch c \<noteq> []"
      and cond: "conditionHolds (Choice_Condition c) (State n) = Some True"
      and go: "TrimPrefix (Choice_Stitch c) ''.'' \<noteq> [] \<or> StateChanges c \<noteq> []" for c
  proof -
    let ?t = "if TrimPrefix (Choice_Stitch c) ''.'' = [] then KnotName n
              else TrimPrefix (Choice_Stitch c) ''.''"
    from cd c have dn: "choiceDone ast (Graph g) (KnotName n) (State n) sk c" by blast
    then have ok: "\<forall>e. followChoice ast (KnotName n) (State n) sk c \<noteq> Inl e"
      by (auto simp: choiceDone_def)
    from followChoice_stitch[OF st cond go ok] obtain tk ns
      where tk: "fmlookup (Knots ast) ?t = Some tk"
        and ns: "applyStateChanges (State n) c ast = Some ns"
        and fc: "followChoice ast (KnotName n) (State n) sk c =
                   Inr (Some (?t, tk,
                     if Knot_Scene sk \<noteq> Knot_Scene tk then purgeLocals ast ns else ns))"
      by blast
    let ?s = "if Knot_Scene sk \<noteq> Knot_Scene tk then purgeLocals ast ns else ns"
    from expectedEdges_member[OF c fc] ed
    have e: "\<lparr>Edge_Text = Choice_Text c, TargetNodeID = generateNodeID ?t ?s,
            Edge_Stitch = Choice_Stitch c\<rparr> \<in> set (Edges n)" by simp
    from dn fc have dom: "generateNodeID ?t ?s |\<in>| fmdom (Graph g)"
      by (simp add: choiceDone_def)
    from reachable.step[OF rn sk c fc] have r: "reachable ast ?t ?s" .
    have p: "Knot_Scene sk \<noteq> Knot_Scene tk \<longrightarrow>
              (\<forall>l. l |\<in>| fmdom (LocalStates ast) \<longrightarrow> fmlookup ?s l = Some False)"
      using followChoice_purge[OF fc] by blast
    have u: "uniqueIDs ast \<longrightarrow>
              (\<exists>n'. fmlookup (Graph g) (generateNodeID ?t ?s) = Some n' \<and>
                    KnotName n' = ?t \<and> State n' = ?s)"
    proof
      assume u: "uniqueIDs ast"
      from dom obtain n' where n': "fmlookup (Graph g) (generateNodeID ?t ?s) = Some n'"
        by (auto simp: fmlookup_dom_iff)
      from final_lookup_unique[OF inv u r n'] n'
      show "\<exists>n'. fmlookup (Graph g) (generateNodeID ?t ?s) = Some n' \<and>
                    KnotName n' = ?t \<and> State n' = ?s" by blast
    qed
    from e tk ns p r dom u show ?thesis
      by (intro exI[of _ ?t] exI[of _ tk] exI[of _ ns] exI[of _ ?s] conjI refl)
  qed
  have B: "\<exists>c \<in> set (Choices sk). \<exists>tk ns.
           Choice_Stitch c = Edge_Stitch e \<and> Choice_Text c = Edge_Text e \<and>
           conditionHolds (Choice_Condition c) (State n) = Some True \<and>
           (TrimPrefix (Choice_Stitch c) ''.'' \<noteq> [] \<or> StateChanges c \<noteq> []) \<and>
           fmlookup (Knots ast)
             (if TrimPrefix (Choice_Stitch c) ''.'' = [] then KnotName n
              else TrimPrefix (Choice_Stitch c) ''.'') = Some tk \<and>
           applyStateChanges (State n) c ast = Some ns \<and>
           TargetNodeID e =
             generateNodeID
               (if TrimPrefix (Choice_Stitch c) ''.'' = [] then KnotName n
                else TrimPrefix (Choice_Stitch c) ''.'')
               (if Knot_Scene sk \<noteq> Knot_Scene tk then purgeLocals ast ns else ns)"
    if e: "e \<in> set (Edges n)" and ne: "Edge_Stitch e \<noteq> []" for e
  proof -
    from final_edges[OF inv assms(2) e] sk obtain c :: Choice and t and tk0 :: Knot and st'
      where c: "c \<in> set (Choices sk)"
        and fc: "followChoice ast (KnotName n) (State n) sk c = Inr (Some (t, tk0, st'))"
        and ee: "e = \<lparr>Edge_Text = Choice_Text c, TargetNodeID = generateNodeID t st',
                   Edge_Stitch = Choice_Stitch c\<rparr>"
      by auto
    from ee have st: "Choice_Stitch c = Edge_Stitch e" and tx: "Choice_Text c = Edge_Text e"
      and tid: "TargetNodeID e = generateNodeID t st'" by simp_all
    from followChoice_target[OF fc] have rt: "resolveTarget c (KnotName n) = Some t"
      and cond: "conditionHolds (Choice_Condition c) (State n) = Some True" by simp_all
    from st ne have cs: "Choice_Stitch c \<noteq> []" by simp
    from rt cs have go: "TrimPrefix (Choice_Stitch c) ''.'' \<noteq> [] \<or> StateChanges c \<noteq> []"
      by (auto simp: resolveTarget_def Let_def split: if_splits)
    from fc have ok: "\<forall>e. followChoice ast (KnotName n) (State n) sk c \<noteq> Inl e" by simp
    from followChoice_stitch[OF cs cond go ok] fc obtain tk ns
      where "fmlookup (Knots ast)
             (if TrimPrefix (Choice_Stitch c) ''.'' = [] then KnotName n
              else TrimPrefix (Choice_Stitch c) ''.'') = Some tk"
        "applyStateChanges (State n) c ast = Some ns"
        "t = (if TrimPrefix (Choice_Stitch c) ''.'' = [] then KnotName n
              else TrimPrefix (Choice_Stitch c) ''.'')"
        "st' = (if Knot_Scene sk \<noteq> Knot_Scene tk then purgeLocals ast ns else ns)"
      by auto
    with c st tx cond go tid show ?thesis
      by (intro bexI[of _ c] exI[of _ tk] exI[of _ ns]) simp_all
  qed
  from sk A B show ?thesis by blast
qed

theorem stitch_edge_witness:
  "uniqueIDs stitchScript \<and>
   (\<exists>g n e n'. buildGraph stitchScript = Some (Inr g) \<and>
      fmlookup (Graph g) ''index|l=true'' = Some n \<and> e \<in> set (Edges n) \<and>
      Edge_Stitch e = ''.intro'' \<and> Edge_Text e = ''Inspect the fountain.'' \<and>
      fmlookup (Graph g) (TargetNodeID e) = Some n' \<and> KnotName n' = ''intro'' \<and>
      fmlookup (State n') ''l'' = Some False)"
proof -
  have u: "uniqueIDs stitchScript" using stitch_declaredOnly by (rule declaredOnly_uniqueIDs)
  from stitch_run obtain g n where g: "buildGraph stitchScript = Some (Inr g)"
    and n: "fmlookup (Graph g) ''index|l=true'' = Some n" "KnotName n = ''index''"
    by auto
  let ?c = "\<lparr>Choice_Text = ''Inspect the fountain.'', Choice_Condition = [],
             StateChanges = [], TargetKnot = [], Choice_Stitch = ''.intro''\<rparr>"
  let ?ik = "\<lparr>Name = ''index'', Knot_Scene = ''garden'', Body = [],
           Choices =
             [\<lparr>Choice_Text = ''Wait.'', Choice_Condition = [],
               StateChanges = [''l = true''], TargetKnot = [], Choice_Stitch = []\<rparr>, ?c],
           Knot_IsEnd = False\<rparr>"
  let ?fk = "\<lparr>Name = ''intro'', Knot_Scene = ''fountain'', Body = [], Choices = [],
           Knot_IsEnd = False\<rparr>"
  have ik: "fmlookup (Knots stitchScript) ''index'' = Some ?ik"
    and fk: "fmlookup (Knots stitchScript) ''intro'' = Some ?fk"
    and loc: "''l'' |\<in>| fmdom (LocalStates stitchScript)"
    by (simp_all add: stitchScript_def)
  have tp: "TrimPrefix ''.intro'' ''.'' = ''intro''" by (simp add: TrimPrefix_def)
  from stitch_edge[OF g n(1)] n(2) ik
  have A: "\<forall>c \<in> set (Choices ?ik).
        Choice_Stitch c \<noteq> [] \<longrightarrow>
        conditionHolds (Choice_Condition c) (State n) = Some True \<longrightarrow>
        TrimPrefix (Choice_Stitch c) ''.'' \<noteq> [] \<or> StateChanges c \<noteq> [] \<longrightarrow>
        (\<exists>t tk ns st'.
           \<lparr>Edge_Text = Choice_Text c, TargetNodeID = generateNodeID t st',
            Edge_Stitch = Choice_Stitch c\<rparr> \<in> set (Edges n) \<and>
           t = (if TrimPrefix (Choice_Stitch c) ''.'' = [] then KnotName n
                else TrimPrefix (Choice_Stitch c) ''.'') \<and>
           fmlookup (Knots stitchScript) t = Some tk \<and>
           applyStateChanges (State n) c stitchScript = Some ns \<and>
           st' = (if Knot_Scene ?ik \<noteq> Knot_Scene tk then purgeLocals stitchScript ns else ns) \<and>
           (Knot_Scene ?ik \<noteq> Knot_Scene tk \<longrightarrow>
              (\<forall>l. l |\<in>| fmdom (LocalStates stitchScript) \<longrightarrow> fmlookup st' l = Some False)) \<and>
           reachable stitchScript t st' \<and> generateNodeID t st' |\<in>| fmdom (Graph g) \<and>
           (uniqueIDs stitchScript \<longrightarrow>
              (\<exists>n'. fmlookup (Graph g) (generateNodeID t st') = Some n' \<and>
                    KnotName n' = t \<and> State n' = st')))"
    by auto
  have "?c \<in> set (Choices ?ik)" by simp
  moreover have "Choice_Stitch ?c \<noteq> []" by simp
  moreover have "conditionHolds (Choice_Condition ?c) (State n) = Some True"
    by (simp add: conditionHolds_def)
  moreover have "TrimPrefix (Choice_Stitch ?c) ''.'' \<noteq> [] \<or> StateChanges ?c \<noteq> []"
    by (simp add: tp)
  ultimately obtain t and tk :: Knot and st' where
    e: "\<lparr>Edge_Text = Choice_Text ?c, TargetNodeID = generateNodeID t st',
            Edge_Stitch = Choice_Stitch ?c\<rparr> \<in> set (Edges n)"
    and t: "t = (if TrimPrefix (Choice_Stitch ?c) ''.'' = [] then KnotName n
                else TrimPrefix (Choice_Stitch ?c) ''.'')"
    and tk: "fmlookup (Knots stitchScript) t = Some tk"
    and p: "Knot_Scene ?ik \<noteq> Knot_Scene tk \<longrightarrow>
              (\<forall>l. l |\<in>| fmdom (LocalStates stitchScript) \<longrightarrow> fmlookup st' l = Some False)"
    and un: "uniqueIDs stitchScript \<longrightarrow>
              (\<exists>n'. fmlookup (Graph g) (generateNodeID t st') = Some n' \<and>
                    KnotName n' = t \<and> State n' = st')"
    using A[rule_format, of ?c] by blast
  from t have t': "t = ''intro''" by (simp add: tp)
  with tk fk have "tk = ?fk" by simp
  with p loc have l: "fmlookup st' ''l'' = Some False" by simp
  from un u t' obtain n' where n': "fmlookup (Graph g) (generateNodeID t st') = Some n'"
    "KnotName n' = ''intro''" "State n' = st'" by blast
  define e where "e = \<lparr>Edge_Text = Choice_Text ?c, TargetNodeID = generateNodeID t st',
            Edge_Stitch = Choice_Stitch ?c\<rparr>"
  have "buildGraph stitchScript = Some (Inr g) \<and>
      fmlookup (Graph g) ''index|l=true'' = Some n \<and> e \<in> set (Edges n) \<and>
      Edge_Stitch e = ''.intro'' \<and> Edge_Text e = ''Inspect the fountain.'' \<and>
      fmlookup (Graph g) (TargetNodeID e) = Some n' \<and> KnotName n' = ''intro'' \<and>
      fmlookup (State n') ''l'' = Some False"
    using g n(1) e n' l by (simp add: e_def)
  then have "\<exists>g n e n'. buildGraph stitchScript = Some (Inr g) \<and>
      fmlookup (Graph g) ''index|l=true'' = Some n \<and> e \<in> set (Edges n) \<and>
      Edge_Stitch e = ''.intro'' \<and> Edge_Text e = ''Inspect the fountain.'' \<and>
      fmlookup (Graph g) (TargetNodeID e) = Some n' \<and> KnotName n' = ''intro'' \<and>
      fmlookup (State n') ''l'' = Some False"
    by (intro exI[of _ g] exI[of _ n] exI[of _ e] exI[of _ n'])
  with u show ?thesis by (intro conjI)
qed

text \<open>
  C2, as the claim states it, fails: in \<open>stitchScript\<close> the second choice of the knot
  \<open>index\<close> (scene \<open>garden\<close>) has the stitch \<open>.intro\<close> and no target knot. The edge it
  gives the node \<open>index|l=true\<close> leads to \<open>intro|l=false\<close>, a node of the knot
  \<open>intro\<close> (scene \<open>fountain\<close>), in which the local state \<open>l\<close>, true where the edge
  leaves, is false: the knot changed and the purge was applied.
\<close>

theorem stitch_edge_counterexample:
  "unitOf stitchScript ''index|l=true'' = Some ''index'' \<and>
   valueOf stitchScript ''index|l=true'' ''l'' = Some True \<and>
   stitchesOf stitchScript ''index|l=true'' = [[], ''.intro''] \<and>
   targetsOf stitchScript ''index|l=true'' = [''index|l=true'', ''intro|l=false''] \<and>
   unitOf stitchScript ''intro|l=false'' = Some ''intro'' \<and>
   valueOf stitchScript ''intro|l=false'' ''l'' = Some False"
proof -
  from stitch_run obtain g where "buildGraph stitchScript = Some (Inr g)"
    "map_option (\<lambda>n. (KnotName n, fmlookup (State n) ''l'', map TargetNodeID (Edges n),
                          map Edge_Stitch (Edges n)))
         (fmlookup (Graph g) ''index|l=true'')
         = Some (''index'', Some True, [''index|l=true'', ''intro|l=false''], [[], ''.intro''])"
    "map_option (\<lambda>n. (KnotName n, fmlookup (State n) ''l'')) (fmlookup (Graph g) ''intro|l=false'')
         = Some (''intro'', Some False)"
    by auto
  then show ?thesis
    by (auto simp: valueOf_def targetsOf_def stitchesOf_def unitOf_def nodeAt_def)
qed

lemma followChoice_Inl_iff:
  assumes "\<forall>change \<in> set (StateChanges c). CHR ''='' \<in> set change"
  shows "followChoice ast u st knot c = Inl e \<longleftrightarrow>
           (\<exists>t. e = NonExistentKnot t \<and> conditionHolds (Choice_Condition c) st = Some True \<and>
                resolveTarget c u = Some t \<and> fmlookup (Knots ast) t = None)"
proof -
  obtain b where b: "conditionHolds (Choice_Condition c) st = Some b"
    using conditionHolds_total[of "Choice_Condition c" st] by auto
  obtain ns where ns: "applyStateChanges st c ast = Some ns"
    using applyChanges_total_iff[of st "StateChanges c" ast] assms
    by (auto simp: applyStateChanges_def)
  show ?thesis
    by (cases "resolveTarget c u"; cases b)
       (auto simp: followChoice_def b ns split: option.splits)
qed

lemma errJustified_deadEnd:
  assumes wf: "changesWellFormed ast" and e: "errJustified ast e"
  shows "\<exists>t. e = NonExistentKnot t \<and> fmlookup (Knots ast) t = None \<and> deadEnd ast"
proof -
  from e obtain u st and knot :: Knot and c :: Choice where r: "reachable ast u st"
    and k: "fmlookup (Knots ast) u = Some knot" and c: "c \<in> set (Choices knot)"
    and f: "followChoice ast u st knot c = Inl e"
    unfolding errJustified_def by blast
  from k have "knot \<in> fmran' (Knots ast)" by (rule fmran'I)
  with wf c have "\<forall>change \<in> set (StateChanges c). CHR ''='' \<in> set change"
    by (auto simp: changesWellFormed_def)
  from followChoice_Inl_iff[OF this, of ast u st knot e] f
  obtain t where "e = NonExistentKnot t" "conditionHolds (Choice_Condition c) st = Some True"
    "resolveTarget c u = Some t" "fmlookup (Knots ast) t = None" by auto
  with r k c show ?thesis unfolding deadEnd_def by blast
qed

lemma deadEnd_no_graph:
  assumes wf: "changesWellFormed ast" and u: "uniqueIDs ast" and d: "deadEnd ast"
  shows "buildGraph ast \<noteq> Some (Inr g)"
proof
  assume g: "buildGraph ast = Some (Inr g)"
  from buildGraph_Inr[OF g] obtain v where inv: "Inv ast None (Graph g, [], v)" by blast
  from d obtain u0 st and knot :: Knot and c :: Choice and t where r: "reachable ast u0 st"
    and k: "fmlookup (Knots ast) u0 = Some knot" and c: "c \<in> set (Choices knot)"
    and h: "conditionHolds (Choice_Condition c) st = Some True" "resolveTarget c u0 = Some t"
      "fmlookup (Knots ast) t = None"
    unfolding deadEnd_def by blast
  from k have "knot \<in> fmran' (Knots ast)" by (rule fmran'I)
  with wf c have "\<forall>change \<in> set (StateChanges c). CHR ''='' \<in> set change"
    by (auto simp: changesWellFormed_def)
  from followChoice_Inl_iff[OF this, of ast u0 st knot "NonExistentKnot t"] h
  have f: "followChoice ast u0 st knot c = Inl (NonExistentKnot t)" by simp
  from final_complete[OF inv u r] obtain n where n: "fmlookup (Graph g) (generateNodeID u0 st) = Some n"
    "KnotName n = u0" "State n = st" by blast
  from final_choices[OF inv n(1)] k c n(2,3) have "choiceDone ast (Graph g) u0 st knot c" by auto
  with f show False by (simp add: choiceDone_def)
qed

lemma lost_run: "buildGraph lostScript = Some (Inl (NonExistentKnot ''cellar''))"
  by (simp add: lostScript_def eval_simps)

lemma lost_deadEnd: "deadEnd lostScript"
  unfolding deadEnd_def
proof (intro exI conjI)
  show "reachable lostScript ''index'' (initialState lostScript)" by (rule reachable.start)
  show "fmlookup (Knots lostScript) ''index'' =
      Some \<lparr>Name = ''index'', Knot_Scene = [], Body = [],
           Choices =
             [\<lparr>Choice_Text = ''Go down.'', Choice_Condition = [],
               StateChanges = [], TargetKnot = ''cellar'', Choice_Stitch = []\<rparr>],
           Knot_IsEnd = False\<rparr>"
    by (simp add: lostScript_def)
  show "\<lparr>Choice_Text = ''Go down.'', Choice_Condition = [],
               StateChanges = [], TargetKnot = ''cellar'', Choice_Stitch = []\<rparr>
        \<in> set (Choices \<lparr>Name = ''index'', Knot_Scene = [], Body = [],
           Choices =
             [\<lparr>Choice_Text = ''Go down.'', Choice_Condition = [],
               StateChanges = [], TargetKnot = ''cellar'', Choice_Stitch = []\<rparr>],
           Knot_IsEnd = False\<rparr>)"
    by simp
  show "conditionHolds (Choice_Condition \<lparr>Choice_Text = ''Go down.'', Choice_Condition = [],
               StateChanges = [], TargetKnot = ''cellar'', Choice_Stitch = []\<rparr>)
          (initialState lostScript) = Some True"
    by (simp add: conditionHolds_def)
  show "resolveTarget \<lparr>Choice_Text = ''Go down.'', Choice_Condition = [],
               StateChanges = [], TargetKnot = ''cellar'', Choice_Stitch = []\<rparr> ''index''
          = Some ''cellar''"
    by (simp add: resolveTarget_def)
  show "fmlookup (Knots lostScript) ''cellar'' = None" by (simp add: lostScript_def)
qed

lemma lost_wf: "changesWellFormed lostScript" "declaredOnly lostScript"
  by (auto simp: changesWellFormed_lookup declaredOnly_lookup lostScript_def split: if_splits)

text \<open>
  The two errors of \<open>buildGraph\<close>. The function always returns. For a script whose state
  changes all contain \<open>=\<close>: without the knot \<open>index\<close> it returns the error of line
  12; any error it returns is that one, or the error of line 73 for a choice of a reachable
  node whose condition holds and whose target knot does not exist; a graph it returns has
  no dangling edge. Where the identities of the reachable pairs are distinct, such a choice
  makes it return an error, and a graph it returns has every reachable pair as a node.
\<close>

lemma buildGraph_outcomes:
  assumes wf: "changesWellFormed ast"
  shows "(\<exists>r. buildGraph ast = Some r) \<and>
         (fmlookup (Knots ast) ''index'' = None \<longrightarrow> buildGraph ast = Some (Inl NoIndexKnot)) \<and>
         (\<forall>e. buildGraph ast = Some (Inl e) \<longrightarrow>
            e = NoIndexKnot \<and> fmlookup (Knots ast) ''index'' = None \<or>
            (\<exists>t. e = NonExistentKnot t \<and> fmlookup (Knots ast) t = None \<and> deadEnd ast)) \<and>
         (\<forall>g. buildGraph ast = Some (Inr g) \<longrightarrow>
            fmlookup (Knots ast) ''index'' \<noteq> None \<and> noDangling (Graph g)) \<and>
         (uniqueIDs ast \<longrightarrow> deadEnd ast \<longrightarrow> (\<exists>e. buildGraph ast = Some (Inl e))) \<and>
         (uniqueIDs ast \<longrightarrow>
            (\<forall>g u st. buildGraph ast = Some (Inr g) \<longrightarrow> reachable ast u st \<longrightarrow>
               (\<exists>n. fmlookup (Graph g) (generateNodeID u st) = Some n \<and>
                    KnotName n = u \<and> State n = st)))"
proof (intro conjI allI impI)
  show "\<exists>r. buildGraph ast = Some r" using buildGraph_terminates[of ast] by auto
next
  assume "fmlookup (Knots ast) ''index'' = None"
  then show "buildGraph ast = Some (Inl NoIndexKnot)" by (simp add: buildGraph_def)
next
  fix e assume "buildGraph ast = Some (Inl e)"
  from buildGraph_Inl[OF this] errJustified_deadEnd[OF wf]
  show "e = NoIndexKnot \<and> fmlookup (Knots ast) ''index'' = None \<or>
            (\<exists>t. e = NonExistentKnot t \<and> fmlookup (Knots ast) t = None \<and> deadEnd ast)" by blast
next
  fix g assume g: "buildGraph ast = Some (Inr g)"
  then show "fmlookup (Knots ast) ''index'' \<noteq> None"
    by (auto simp: buildGraph_def split: option.splits)
  from g show "noDangling (Graph g)" by (rule final_noDangling)
next
  assume u: "uniqueIDs ast" and d: "deadEnd ast"
  obtain r where r: "buildGraph ast = Some r" using buildGraph_terminates[of ast] by auto
  with deadEnd_no_graph[OF wf u d] show "\<exists>e. buildGraph ast = Some (Inl e)" by (cases r) auto
next
  fix g u st assume u: "uniqueIDs ast" and g: "buildGraph ast = Some (Inr g)"
    and r: "reachable ast u st"
  from buildGraph_Inr[OF g] obtain v where inv: "Inv ast None (Graph g, [], v)" by blast
  from final_complete[OF inv u r]
  show "\<exists>n. fmlookup (Graph g) (generateNodeID u st) = Some n \<and> KnotName n = u \<and> State n = st" .
qed

lemma door_changesWellFormed: "changesWellFormed doorScript"
  by (auto simp: changesWellFormed_lookup doorScript_def split: if_splits)

lemma buildGraph_outcomes_example:
  "(\<exists>g. buildGraph doorScript = Some (Inr g)) \<and> \<not> deadEnd doorScript \<and>
   deadEnd lostScript \<and> fmlookup (Knots lostScript) ''cellar'' = None \<and>
   buildGraph lostScript = Some (Inl (NonExistentKnot ''cellar''))"
proof -
  from door_run obtain g where g: "buildGraph doorScript = Some (Inr g)" by blast
  have "deadEnd doorScript \<longrightarrow> (\<exists>e. buildGraph doorScript = Some (Inl e))"
    using buildGraph_outcomes[OF door_changesWellFormed] door_uniqueIDs by blast
  with g have d: "\<not> deadEnd doorScript" by auto
  from g have ex: "\<exists>g. buildGraph doorScript = Some (Inr g)" by (rule exI)
  from buildGraph_outcomes[OF lost_wf(1)] lost_run
  have k: "fmlookup (Knots lostScript) ''cellar'' = None" by auto
  from ex d lost_deadEnd k lost_run show ?thesis by (intro conjI)
qed

text \<open>
  C6: a third way to end. The claim leaves \<open>buildGraph\<close> two outcomes, a structural
  error or the complete graph. \<open>panicScript\<close> has the knot \<open>index\<close> and no other, and
  its one choice leads back to \<open>index\<close>, so no choice leads to a knot that does not
  exist; but the state change \<open>has_key\<close> of that choice has no \<open>=\<close>, and
  \<open>applyStateChanges\<close> reads \<open>parts[1]\<close> without a look at the length of \<open>parts\<close>
  (\<open>evaluateCondition\<close> splits a comparison only after \<open>Contains\<close> found the operator
  in it). \<open>buildGraph\<close> returns neither an error nor a graph: it panics.
\<close>

theorem buildGraph_panics:
  "fmdom (Knots panicScript) = {|''index''|} \<and>
   map_option (\<lambda>k. map (\<lambda>c. (StateChanges c, resolveTarget c ''index'')) (Choices k))
     (fmlookup (Knots panicScript) ''index'') = Some [([''has_key''], Some ''index'')] \<and>
   \<not> deadEnd panicScript \<and>
   applyStateChanges (initialState panicScript)
     \<lparr>Choice_Text = ''Look for a key.'', Choice_Condition = [],
      StateChanges = [''has_key''], TargetKnot = [], Choice_Stitch = []\<rparr> panicScript = None \<and>
   buildGraph panicScript = Some (Inl IndexOutOfRange)"
proof -
  have "\<not> deadEnd panicScript"
    by (auto simp: deadEnd_def panicScript_def resolveTarget_def split: if_splits)
  moreover have "fmdom (Knots panicScript) = {|''index''|}"
    "map_option (\<lambda>k. map (\<lambda>c. (StateChanges c, resolveTarget c ''index'')) (Choices k))
     (fmlookup (Knots panicScript) ''index'') = Some [([''has_key''], Some ''index'')]"
    by (simp_all add: panicScript_def resolveTarget_def)
  moreover have "applyStateChanges (initialState panicScript)
     \<lparr>Choice_Text = ''Look for a key.'', Choice_Condition = [],
      StateChanges = [''has_key''], TargetKnot = [], Choice_Stitch = []\<rparr> panicScript = None"
    by (simp add: applyStateChanges_def eval_simps)
  ultimately show ?thesis using panic_run by simp
qed

end
